theory Spec2Isabelle
  imports Main "HOL-Library.Multiset"
begin

section \<open>Values, value sets and the grid\<close>

text \<open>
  The solver package keeps the puzzle in a \<open>Square\<close> and computes with \<open>ValueSet\<close>s.
  Neither type is declared in \<open>solver/game.go\<close>; the definitions of this section give them
  the behaviour the specification asks of the grid collaborator. A \<open>Value\<close> is a Go integer;
  every value the solver handles lies between 0 and 9, so no wrap-around can occur.
\<close>

type_synonym Value = int

definition SQUARE_SIZE :: nat where
  "SQUARE_SIZE = 9"

definition SECTION_SIZE :: nat where
  "SECTION_SIZE = 3"

text \<open>Modelled from the spec: the type \<open>ValueSet\<close> with \<open>NewValueSet\<close>, \<open>Union\<close>,
  \<open>Difference\<close> and \<open>ToSlice\<close> is missing from the sources. The specification speaks of
  "the set of values", their union and "the complement within {1,2,...,9}"; the slice is
  taken in ascending order.\<close>

type_synonym ValueSet = "Value set"

text \<open>
Modelled from the spec: \<open>NewValueSet\<close> (missing from the sources), the set of the values listed.
\<close>

definition NewValueSet :: "Value list \<Rightarrow> ValueSet" where
  "NewValueSet vs = set vs"

text \<open>
Modelled from the spec: \<open>ValueSet.Union\<close> (missing from the sources), "the union of" the used values.
\<close>

definition Union :: "ValueSet \<Rightarrow> ValueSet \<Rightarrow> ValueSet" where
  "Union a b = a \<union> b"

text \<open>
Modelled from the spec: \<open>ValueSet.Difference\<close> (missing from the sources), the "set difference".
\<close>

definition Difference :: "ValueSet \<Rightarrow> ValueSet \<Rightarrow> ValueSet" where
  "Difference a b = a - b"

text \<open>
Modelled from the spec: \<open>ValueSet.ToSlice\<close> (missing from the sources), the members of the set as a
  slice, in ascending order.
\<close>

definition ToSlice :: "ValueSet \<Rightarrow> Value list" where
  "ToSlice a = sorted_list_of_set a"

text \<open>Modelled from the spec: the type \<open>Square\<close> and its methods are missing from the
  sources. The specification describes "a 9x9 matrix of optional integers" with cell
  get/set/clear, \<open>has\<close>, bounds check \<open>exists\<close>, the per-row, per-column and per-block
  "used value" queries, \<open>isAllowed\<close> (the value is not yet used in the row, column or block
  of the cell), a row-major iteration over all coordinates and a deep copy.
  Coordinates are loop indices, hence natural numbers; every caller in \<open>game.go\<close> passes
  coordinates below \<open>Size\<close>.\<close>

record Square =
  Size :: nat
  cells :: "nat \<times> nat \<Rightarrow> Value option"

text \<open>
Modelled from the spec: \<open>NewSquare\<close> (missing from the sources), a grid of the given size with every cell
  empty.
\<close>

definition NewSquare :: "nat \<Rightarrow> Square" where
  "NewSquare n = \<lparr>Size = n, cells = (\<lambda>_. None)\<rparr>"

text \<open>
Modelled from the spec: \<open>Square.Copy\<close> (missing from the sources), "an independent deep clone".
\<close>

definition Square_Copy :: "Square \<Rightarrow> Square" where
  "Square_Copy sq = \<lparr>Size = Size sq, cells = cells sq\<rparr>"

text \<open>
Modelled from the spec: \<open>Square.Exists\<close> (missing from the sources), the bounds check.
\<close>

definition Square_Exists :: "Square \<Rightarrow> nat \<Rightarrow> nat \<Rightarrow> bool" where
  "Square_Exists sq x y \<longleftrightarrow> x < Size sq \<and> y < Size sq"

text \<open>
Modelled from the spec: \<open>Square.Has\<close> (missing from the sources): the cell holds a value.
\<close>

definition Square_Has :: "Square \<Rightarrow> nat \<Rightarrow> nat \<Rightarrow> bool" where
  "Square_Has sq x y \<longleftrightarrow> cells sq (x, y) \<noteq> None"

text \<open>
Modelled from the spec: \<open>Square.Get\<close> (missing from the sources), the content of the cell; \<open>None\<close> is
  the empty cell.
\<close>

definition Square_Get :: "Square \<Rightarrow> nat \<Rightarrow> nat \<Rightarrow> Value option" where
  "Square_Get sq x y = cells sq (x, y)"

text \<open>
Modelled from the spec: \<open>Square.Set\<close> (missing from the sources) stores the value in the cell.
\<close>

definition Square_Set :: "Square \<Rightarrow> nat \<Rightarrow> nat \<Rightarrow> Value \<Rightarrow> Square" where
  "Square_Set sq x y z = sq\<lparr>cells := (cells sq)((x, y) \<mapsto> z)\<rparr>"

text \<open>
Modelled from the spec: \<open>Square.Clear\<close> (missing from the sources) empties the cell.
\<close>

definition Square_Clear :: "Square \<Rightarrow> nat \<Rightarrow> nat \<Rightarrow> Square" where
  "Square_Clear sq x y = sq\<lparr>cells := (cells sq)((x, y) := None)\<rparr>"

text \<open>
Modelled from the spec: the values present in the cells of a list of coordinates, for the three
  "used value" queries of the grid (missing from the sources).
\<close>

definition present :: "Square \<Rightarrow> (nat \<times> nat) list \<Rightarrow> ValueSet" where
  "present sq ps = set (List.map_filter (cells sq) ps)"

text \<open>
Modelled from the spec: \<open>Square.GetRowValues\<close> (missing from the sources), the "set of values currently
  present" in the row.
\<close>

definition GetRowValues :: "Square \<Rightarrow> nat \<Rightarrow> ValueSet" where
  "GetRowValues sq x = present sq (map (\<lambda>y. (x, y)) [0..<Size sq])"

text \<open>
Modelled from the spec: \<open>Square.GetColumnValues\<close> (missing from the sources), the same for the column.
\<close>

definition GetColumnValues :: "Square \<Rightarrow> nat \<Rightarrow> ValueSet" where
  "GetColumnValues sq y = present sq (map (\<lambda>x. (x, y)) [0..<Size sq])"

text \<open>
Modelled from the spec: the coordinates of the 3x3 block that contains the cell, for
  \<open>Square.GetSectionValues\<close> (missing from the sources).
\<close>

definition section_cells :: "nat \<Rightarrow> nat \<Rightarrow> (nat \<times> nat) list" where
  "section_cells x y =
     concat (map (\<lambda>i. map (\<lambda>j. (i, j))
                 [y div SECTION_SIZE * SECTION_SIZE..<y div SECTION_SIZE * SECTION_SIZE + SECTION_SIZE])
            [x div SECTION_SIZE * SECTION_SIZE..<x div SECTION_SIZE * SECTION_SIZE + SECTION_SIZE])"

text \<open>
Modelled from the spec: \<open>Square.GetSectionValues\<close> (missing from the sources), the values present in
  "the containing 3x3 block".
\<close>

definition GetSectionValues :: "Square \<Rightarrow> nat \<Rightarrow> nat \<Rightarrow> ValueSet" where
  "GetSectionValues sq x y = present sq (section_cells x y)"

text \<open>
Modelled from the spec: \<open>Square.IsAllowed\<close> (missing from the sources): the placement would not "violate
  row/column/block uniqueness".
\<close>

definition IsAllowed :: "Square \<Rightarrow> nat \<Rightarrow> nat \<Rightarrow> Value \<Rightarrow> bool" where
  "IsAllowed sq x y z \<longleftrightarrow>
     z \<notin> GetRowValues sq x \<and> z \<notin> GetColumnValues sq y \<and> z \<notin> GetSectionValues sq x y"

text \<open>
Modelled from the spec: the coordinates in "row-major scan order", for \<open>Square.Iterate\<close> (missing from
  the sources).
\<close>

definition coords :: "nat \<Rightarrow> (nat \<times> nat) list" where
  "coords n = concat (map (\<lambda>x. map (\<lambda>y. (x, y)) [0..<n]) [0..<n])"

text \<open>
Modelled from the spec: \<open>Square.Iterate\<close> (missing from the sources), "a full-grid iteration primitive":
  the visitor is called on every coordinate in row-major order. The visitors of \<open>game.go\<close>
  always return a nil error and read the cell through \<open>Has\<close>; the model threads their
  captured variable as a state.
\<close>

definition Iterate :: "Square \<Rightarrow> (nat \<Rightarrow> nat \<Rightarrow> 'a \<Rightarrow> 'a) \<Rightarrow> 'a \<Rightarrow> 'a" where
  "Iterate sq visit s = fold (\<lambda>(x, y). visit x y) (coords (Size sq)) s"

section \<open>The game\<close>

record Step =
  X :: nat
  Y :: nat
  Z :: Value
  Initial :: bool
  IsGuess :: bool

text \<open>The channel is a handle (\<open>None\<close> is the nil channel of a fresh game) and the deadline
  a point on the clock.\<close>

record Game =
  CellsToBeSolved :: int
  GuessCount :: int
  Steps :: "Step list"
  square :: Square
  solutionChannel :: "nat option"
  deadline :: int

definition newGame :: Game where
  "newGame = \<lparr>CellsToBeSolved = 0, GuessCount = 0, Steps = [],
              square = NewSquare SQUARE_SIZE, solutionChannel = None, deadline = 0\<rparr>"

text \<open>\<open>copy\<close> rebuilds every step from its \<open>X\<close>, \<open>Y\<close> and \<open>Z\<close> only: the two flags of the
  new record take Go's zero value.\<close>

definition copy :: "Game \<Rightarrow> Game" where
  "copy g = \<lparr>CellsToBeSolved = CellsToBeSolved g, GuessCount = GuessCount g,
             Steps = map (\<lambda>s. \<lparr>X = X s, Y = Y s, Z = Z s, Initial = False, IsGuess = False\<rparr>) (Steps g),
             square = Square_Copy (square g),
             solutionChannel = solutionChannel g, deadline = deadline g\<rparr>"

definition set_cell :: "Game \<Rightarrow> nat \<Rightarrow> nat \<Rightarrow> Value \<Rightarrow> bool \<Rightarrow> bool \<Rightarrow> Game" where
  "set_cell g x y z initial isGuess =
     g\<lparr>square := Square_Set (square g) x y z,
       Steps := Steps g @ [\<lparr>X = x, Y = y, Z = z, Initial = initial, IsGuess = isGuess\<rparr>],
       GuessCount := (if isGuess then GuessCount g + 1 else GuessCount g)\<rparr>"

definition makeFull :: "nat \<Rightarrow> ValueSet" where
  "makeFull n = NewValueSet [1, 2, 3, 4, 5, 6, 7, 8, 9]"

definition mergeValues :: "ValueSet \<Rightarrow> ValueSet \<Rightarrow> ValueSet \<Rightarrow> ValueSet" where
  "mergeValues rowValues columnValues sectionValues =
     Union (Union rowValues columnValues) sectionValues"

definition findCandidates :: "ValueSet \<Rightarrow> Value list" where
  "findCandidates existing = ToSlice (Difference (makeFull SQUARE_SIZE) existing)"

definition Game_findCandidates :: "Game \<Rightarrow> nat \<Rightarrow> nat \<Rightarrow> Value list" where
  "Game_findCandidates g x y =
     findCandidates (mergeValues (GetRowValues (square g) x)
                                 (GetColumnValues (square g) y)
                                 (GetSectionValues (square g) x y))"

definition countEmptyValues :: "Game \<Rightarrow> int" where
  "countEmptyValues g =
     Iterate (square g) (\<lambda>x y count. if \<not> Square_Has (square g) x y then count + 1 else count) 0"

section \<open>One propagation sweep\<close>

text \<open>
  \<open>step\<close> changes the game in place and returns a count, or \<open>-1\<close> from the middle of its
  two loops. The body of the inner loop is \<open>step_cell\<close>: \<open>Inl g\<close> is the early return with the
  game as it is at that moment, \<open>Inr (cellsSolved, g)\<close> lets the loops go on.
\<close>

definition step_cell :: "nat \<Rightarrow> nat \<Rightarrow> int \<Rightarrow> Game \<Rightarrow> Game + int \<times> Game" where
  "step_cell x y cellsSolved g =
     (if \<not> Square_Has (square g) x y then
        (let mergedCandidates = Game_findCandidates g x y in
         if length mergedCandidates = 0 then Inl g
         else if length mergedCandidates = 1 then
           Inr (cellsSolved + 1, set_cell g x y (mergedCandidates ! 0) False False)
         else Inr (cellsSolved, g))
      else Inr (cellsSolved, g))"

lemma step_cell_Size:
  "step_cell x y n g = Inr (n', g') \<Longrightarrow> Size (square g') = Size (square g)"
  by (auto simp: step_cell_def set_cell_def Square_Set_def Let_def split: if_splits)

function step_columns :: "nat \<Rightarrow> nat \<Rightarrow> int \<Rightarrow> Game \<Rightarrow> Game + int \<times> Game" where
  "step_columns x y cellsSolved g =
     (if y < Size (square g) then
        (case step_cell x y cellsSolved g of
           Inl g' \<Rightarrow> Inl g'
         | Inr (n, g') \<Rightarrow> step_columns x (y + 1) n g')
      else Inr (cellsSolved, g))"
  by pat_completeness auto
termination
  by (relation "measure (\<lambda>(x, y, n, g). Size (square g) - y)")
     (auto dest: step_cell_Size)

declare step_columns.simps [simp del]

lemma step_columns_Size:
  "step_columns x y n g = Inr (n', g') \<Longrightarrow> Size (square g') = Size (square g)"
proof (induction x y n g rule: step_columns.induct)
  case (1 x y n g)
  show ?case
  proof (cases "y < Size (square g)")
    case False
    with "1.prems" show ?thesis by (simp add: step_columns.simps [of x y n g])
  next
    case True
    with "1.prems" obtain m h where c: "step_cell x y n g = Inr (m, h)"
      and r: "step_columns x (y + 1) m h = Inr (n', g')"
      by (auto simp: step_columns.simps [of x y n g] split: sum.splits)
    from "1.IH" [OF True c refl r] step_cell_Size [OF c] show ?thesis by simp
  qed
qed

function step_rows :: "nat \<Rightarrow> int \<Rightarrow> Game \<Rightarrow> Game + int \<times> Game" where
  "step_rows x cellsSolved g =
     (if x < Size (square g) then
        (case step_columns x 0 cellsSolved g of
           Inl g' \<Rightarrow> Inl g'
         | Inr (n, g') \<Rightarrow> step_rows (x + 1) n g')
      else Inr (cellsSolved, g))"
  by pat_completeness auto
termination
  by (relation "measure (\<lambda>(x, n, g). Size (square g) - x)")
     (auto dest: step_columns_Size)

declare step_rows.simps [simp del]

definition step :: "Game \<Rightarrow> int \<times> Game" where
  "step g = (case step_rows 0 0 g of Inl g' \<Rightarrow> (- 1, g') | Inr (n, g') \<Rightarrow> (n, g'))"

section \<open>Branching\<close>

record cell =
  cell_x :: nat
  cell_y :: nat
  candidates :: "Value list"

text \<open>
  \<open>sort.Sort\<close> belongs to Go's standard library. Its documentation promises an ascending
  order as determined by \<open>Less\<close> and adds that the sort is not guaranteed to be stable, so
  the functions below take the sorting routine \<open>srt\<close> as a parameter; \<open>sort_contract\<close> is
  what the library promises for \<open>CellByNumberOfCandidates\<close>.
\<close>

definition Less :: "cell \<Rightarrow> cell \<Rightarrow> bool" where
  "Less a b \<longleftrightarrow> length (candidates a) < length (candidates b)"

definition sort_contract :: "(cell list \<Rightarrow> cell list) \<Rightarrow> bool" where
  "sort_contract srt \<longleftrightarrow>
     (\<forall>cs. mset (srt cs) = mset cs \<and> sorted_wrt (\<lambda>a b. \<not> Less b a) (srt cs))"

definition collect_cell :: "Game \<Rightarrow> nat \<Rightarrow> nat \<Rightarrow> cell list \<Rightarrow> cell list" where
  "collect_cell g x y cs =
     (if \<not> Square_Has (square g) x y then
        (let cellCandidates = Game_findCandidates g x y in
         if length cellCandidates > 1
         then cs @ [\<lparr>cell_x = x, cell_y = y, candidates = cellCandidates\<rparr>]
         else cs)
      else cs)"

definition findCellsWithLeastCandidates :: "(cell list \<Rightarrow> cell list) \<Rightarrow> Game \<Rightarrow> cell list" where
  "findCellsWithLeastCandidates srt g = srt (Iterate (square g) (collect_cell g) [])"

text \<open>Every \<open>go solve(cpy)\<close> starts a search task; \<open>guessAndContinue\<close> returns the games
  these tasks start from, in the order of the loop.\<close>

definition guessAndContinue :: "(cell list \<Rightarrow> cell list) \<Rightarrow> Game \<Rightarrow> Game list" where
  "guessAndContinue srt g =
     (let orderedBestGuesses = findCellsWithLeastCandidates srt g in
      if length orderedBestGuesses > 0 then
        (let bestGuess = orderedBestGuesses ! 0 in
         map (\<lambda>cand. set_cell (copy g) (cell_x bestGuess) (cell_y bestGuess) cand False True)
             (candidates bestGuess))
      else [])"

section \<open>The search tasks\<close>

text \<open>
  \<open>reports srt i g s\<close>: the task running \<open>solve\<close> on \<open>g\<close>, at iteration \<open>i\<close> of its loop, or
  one of the tasks started below it, sends \<open>s\<close> to the solution channel. Every iteration
  first reads the clock (\<open>now\<close>) and gives up after the deadline; a sweep that returns
  \<open>-1\<close> ends the task; a sweep that returns 0 hands over to the children of
  \<open>guessAndContinue\<close>; otherwise the game is sent once no cell is empty, and the loop goes
  on if some are.
\<close>

definition maxSteps :: nat where
  "maxSteps = SQUARE_SIZE * SQUARE_SIZE"

inductive reports :: "(cell list \<Rightarrow> cell list) \<Rightarrow> nat \<Rightarrow> Game \<Rightarrow> Game \<Rightarrow> bool"
  for srt :: "cell list \<Rightarrow> cell list" where
  solved: "i < maxSteps \<Longrightarrow> \<not> now > deadline g \<Longrightarrow> step g = (n, g') \<Longrightarrow> \<not> n < 0 \<Longrightarrow> n \<noteq> 0 \<Longrightarrow>
           countEmptyValues g' = 0 \<Longrightarrow> reports srt i g g'"
| again: "i < maxSteps \<Longrightarrow> \<not> now > deadline g \<Longrightarrow> step g = (n, g') \<Longrightarrow> \<not> n < 0 \<Longrightarrow> n \<noteq> 0 \<Longrightarrow>
          countEmptyValues g' \<noteq> 0 \<Longrightarrow> reports srt (i + 1) g' s \<Longrightarrow> reports srt i g s"
| stuck: "i < maxSteps \<Longrightarrow> \<not> now > deadline g \<Longrightarrow> step g = (n, g') \<Longrightarrow> \<not> n < 0 \<Longrightarrow> n = 0 \<Longrightarrow>
          c \<in> set (guessAndContinue srt g') \<Longrightarrow> reports srt 0 c s \<Longrightarrow> reports srt i g s"

section \<open>Collecting the solutions\<close>

datatype error =
    InvalidColumns nat nat nat
  | InvalidToken string nat nat
  | InvalidValue int nat nat
  | DuplicateValue int nat nat
  | NotEnoughRows nat nat
  | NoSolutionsFound

definition solutionExists :: "Game list \<Rightarrow> Game \<Rightarrow> bool" where
  "solutionExists solutions newSolution \<longleftrightarrow>
     list_ex (\<lambda>s. square s = square newSolution) solutions"

text \<open>
  The \<open>select\<close> loop of \<open>waitforCompletion\<close>. \<open>arrivals\<close> are the games the channel delivers
  before the timer fires, in the order of delivery; when they are used up the timer ends
  the loop. \<open>Verbose\<close> is the package's global flag.
\<close>

fun outerLoop :: "Game list \<Rightarrow> Game list \<Rightarrow> int \<Rightarrow> Game list" where
  "outerLoop [] solutions minSolutionCount = solutions"
| "outerLoop (newSolution # arrivals) solutions minSolutionCount =
     (if \<not> solutionExists solutions newSolution then
        (if int (length (solutions @ [newSolution])) \<ge> minSolutionCount
         then solutions @ [newSolution]
         else outerLoop arrivals (solutions @ [newSolution]) minSolutionCount)
      else outerLoop arrivals solutions minSolutionCount)"

definition waitforCompletion :: "bool \<Rightarrow> Game list \<Rightarrow> int \<Rightarrow> Game list \<times> error option" where
  "waitforCompletion Verbose arrivals minSolutionCount =
     (let solutions = outerLoop arrivals [] minSolutionCount in
      if length solutions = 0 then
        (if Verbose then (solutions, Some NoSolutionsFound) else (solutions, None))
      else (solutions, None))"

section \<open>Loading a puzzle\<close>

text \<open>
  \<open>strings.Split\<close> with a separator of one byte: the pieces between the separators, a
  single empty piece for the empty string.
\<close>

fun split_on :: "char \<Rightarrow> string \<Rightarrow> string list" where
  "split_on sep [] = [[]]"
| "split_on sep (c # s) =
     (if c = sep then [] # split_on sep s
      else (case split_on sep s of
              [] \<Rightarrow> [[c]]
            | w # ws \<Rightarrow> (c # w) # ws))"

text \<open>
  \<open>strconv.Atoi\<close>: an optional sign and at least one decimal digit, nothing else; a
  number outside the 64-bit range of \<open>int\<close> is an error too. \<open>None\<close> is the error.
\<close>

definition digit_of :: "char \<Rightarrow> nat option" where
  "digit_of c =
     (let k = (of_char c :: nat) in if 48 \<le> k \<and> k \<le> 57 then Some (k - 48) else None)"

fun digits :: "string \<Rightarrow> nat \<Rightarrow> nat option" where
  "digits [] n = Some n"
| "digits (c # s) n = (case digit_of c of None \<Rightarrow> None | Some d \<Rightarrow> digits s (n * 10 + d))"

definition in_int_range :: "int \<Rightarrow> int option" where
  "in_int_range n = (if - (2 ^ 63) \<le> n \<and> n < 2 ^ 63 then Some n else None)"

definition Atoi :: "string \<Rightarrow> int option" where
  "Atoi s =
     (case s of
        [] \<Rightarrow> None
      | c # r \<Rightarrow>
          if c = CHR ''-'' \<or> c = CHR ''+'' then
            (if r = [] then None
             else (case digits r 0 of
                     None \<Rightarrow> None
                   | Some n \<Rightarrow> in_int_range (if c = CHR ''-'' then - int n else int n)))
          else (case digits s 0 of None \<Rightarrow> None | Some n \<Rightarrow> in_int_range (int n)))"

text \<open>The loop over the tokens of line \<open>x\<close>; \<open>y\<close> is the index of the first token of \<open>vals\<close>.\<close>

fun load_row :: "nat \<Rightarrow> nat \<Rightarrow> string list \<Rightarrow> Game \<Rightarrow> error + Game" where
  "load_row x y [] game = Inr game"
| "load_row x y (val # vals) game =
     (if val = ''_'' then load_row x (y + 1) vals (game\<lparr>square := Square_Clear (square game) x y\<rparr>)
      else (case Atoi val of
              None \<Rightarrow> Inl (InvalidToken val (x + 1) (y + 1))
            | Some num \<Rightarrow>
                if num < 0 \<or> num > int SQUARE_SIZE then Inl (InvalidValue num (x + 1) (y + 1))
                else if \<not> IsAllowed (square game) x y num then Inl (DuplicateValue num (x + 1) (y + 1))
                else load_row x (y + 1) vals (set_cell game x y num True False)))"

text \<open>The loop over the lines; \<open>x\<close> is the index of the first line of the list. Both
  \<open>break\<close>s leave the loop with the lines read so far.\<close>

fun load_lines :: "nat \<Rightarrow> string list \<Rightarrow> nat \<Rightarrow> Game \<Rightarrow> error + nat \<times> Game" where
  "load_lines x [] linesRead game = Inr (linesRead, game)"
| "load_lines x (line # rest) linesRead game =
     (if x \<ge> SQUARE_SIZE then Inr (linesRead, game)
      else if line = [] then Inr (linesRead, game)
      else (let splitted = split_on CHR '' '' line in
            if length splitted \<noteq> SQUARE_SIZE
            then Inl (InvalidColumns (x + 1) SQUARE_SIZE (length splitted))
            else (case load_row x 0 splitted game of
                    Inl e \<Rightarrow> Inl e
                  | Inr game' \<Rightarrow> load_lines (x + 1) rest (linesRead + 1) game')))"

definition Load :: "string \<Rightarrow> error + Game" where
  "Load lines =
     (case load_lines 0 (split_on CHR 0x0A lines) 0 newGame of
        Inl e \<Rightarrow> Inl e
      | Inr (linesRead, game) \<Rightarrow>
          if linesRead \<noteq> SQUARE_SIZE then Inl (NotEnoughRows SQUARE_SIZE linesRead)
          else Inr (game\<lparr>CellsToBeSolved := countEmptyValues game\<rparr>))"

section \<open>Solve\<close>

text \<open>
  \<open>Solve\<close> stores a fresh channel and the deadline in the game, starts \<open>solve\<close> on it and
  returns what \<open>waitforCompletion\<close> returns. Whatever arrives on the channel was sent by a
  search task; how many of the reports arrive before the timer fires, and in which order,
  depends on the scheduling. Time is counted in seconds.
\<close>

inductive Solve ::
  "(cell list \<Rightarrow> cell list) \<Rightarrow> bool \<Rightarrow> Game \<Rightarrow> int \<Rightarrow> int \<Rightarrow> Game list \<times> error option \<Rightarrow> bool"
  for srt :: "cell list \<Rightarrow> cell list" and Verbose :: bool where
  Solve_returns:
    "list_all (reports srt 0 (g\<lparr>solutionChannel := Some ch, deadline := now + timeout\<rparr>)) arrivals \<Longrightarrow>
     Solve srt Verbose g timeout minSolutionCount
       (waitforCompletion Verbose arrivals minSolutionCount)"

section \<open>The specification's wording, and a sorting routine\<close>

text \<open>The specification's wording of the collector, without the early exit: every arriving
  grid is compared with the accepted ones by content and appended unless it is there
  already.\<close>

fun accept_all :: "Game list \<Rightarrow> Game list \<Rightarrow> Game list" where
  "accept_all [] accepted = accepted"
| "accept_all (s # arrivals) accepted =
     accept_all arrivals
       (if (\<exists>a \<in> set accepted. square a = square s) then accepted else accepted @ [s])"

text \<open>
  The specification's wording of the sweep, to compare \<open>step\<close> with. The candidate set of
  a cell is "the set difference of the domain {1..9} minus the union of values already
  present in that cell's row, column, and block". The sweep visits the coordinates in the
  order of the list: it passes over a cell that holds a value; on an empty cell without
  candidate it returns the sentinel \<open>-1\<close> and the game as it is; on an empty cell with a
  single candidate it places that value, appends the record "not initial, not guess" and
  counts the cell; it leaves a cell with two or more candidates alone.
\<close>

definition candidate_set :: "Square \<Rightarrow> nat \<Rightarrow> nat \<Rightarrow> Value set" where
  "candidate_set sq x y =
     {1..9} - ({v. \<exists>j < Size sq. cells sq (x, j) = Some v} \<union>
               {v. \<exists>i < Size sq. cells sq (i, y) = Some v} \<union>
               {v. \<exists>i j. i div 3 = x div 3 \<and> j div 3 = y div 3 \<and> cells sq (i, j) = Some v})"

fun sweep :: "(nat \<times> nat) list \<Rightarrow> int \<Rightarrow> Game \<Rightarrow> int \<times> Game" where
  "sweep [] fixed g = (fixed, g)"
| "sweep ((x, y) # rest) fixed g =
     (if cells (square g) (x, y) \<noteq> None then sweep rest fixed g
      else if candidate_set (square g) x y = {} then (- 1, g)
      else if is_singleton (candidate_set (square g) x y) then
        sweep rest (fixed + 1)
          (g\<lparr>square := (square g)\<lparr>cells := (cells (square g))
                          ((x, y) \<mapsto> the_elem (candidate_set (square g) x y))\<rparr>,
             Steps := Steps g @ [\<lparr>X = x, Y = y, Z = the_elem (candidate_set (square g) x y),
                                 Initial = False, IsGuess = False\<rparr>]\<rparr>)
      else sweep rest fixed g)"

text \<open>The cells \<open>findCellsWithLeastCandidates\<close> collects: the empty cells with more than
  one candidate, in the order of the iteration.\<close>

definition open_cell :: "Game \<Rightarrow> nat \<times> nat \<Rightarrow> bool" where
  "open_cell g p \<longleftrightarrow>
     \<not> Square_Has (square g) (fst p) (snd p) \<and> length (Game_findCandidates g (fst p) (snd p)) > 1"

definition cell_at :: "Game \<Rightarrow> nat \<times> nat \<Rightarrow> cell" where
  "cell_at g p = \<lparr>cell_x = fst p, cell_y = snd p, candidates = Game_findCandidates g (fst p) (snd p)\<rparr>"

text \<open>
The placement of a value in a cell of a grid, and the properties of grids that every
  placement of a candidate in an empty cell inside the grid keeps.
\<close>

definition place :: "Square \<Rightarrow> nat \<Rightarrow> nat \<Rightarrow> Value \<Rightarrow> Square" where
  "place sq x y v = sq\<lparr>cells := (cells sq)((x, y) \<mapsto> v)\<rparr>"

definition placement_closed :: "(Square \<Rightarrow> bool) \<Rightarrow> bool" where
  "placement_closed P \<longleftrightarrow>
     (\<forall>sq x y v. P sq \<longrightarrow> x < Size sq \<longrightarrow> y < Size sq \<longrightarrow> cells sq (x, y) = None \<longrightarrow>
        v \<in> candidate_set sq x y \<longrightarrow> P (place sq x y v))"


text \<open>
The rows \<open>Load\<close> reads: the lines before the first empty line, nine at most.
\<close>

definition rows_read :: "string \<Rightarrow> string list" where
  "rows_read s = takeWhile (\<lambda>line. line \<noteq> []) (take SQUARE_SIZE (split_on CHR 0x0A s))"

text \<open>
One sorting routine that keeps the library's promise: a pass that compares each
  element with the one six places before it and swaps the two when \<open>Less\<close> says so,
  followed by a stable insertion sort. On a slice of at most twelve elements this is the
  routine of \<open>sort.Sort\<close> in Go 1.6 to Go 1.18. Other releases sort short slices with
  the insertion sort alone (slices of up to seven elements before Go 1.6, of up to twelve
  from Go 1.19 on), and the repository fixes no release. The runs of \<open>puzzle5\<close> below
  apply \<open>go_sort\<close> to seven cells.
\<close>

function gap_pass :: "nat \<Rightarrow> cell list \<Rightarrow> cell list" where
  "gap_pass i data =
     (if i < length data then
        gap_pass (i + 1)
          (if Less (data ! i) (data ! (i - 6)) then data[i := data ! (i - 6), i - 6 := data ! i]
           else data)
      else data)"
  by pat_completeness auto
termination
  by (relation "measure (\<lambda>(i, data). length data - i)") auto

declare gap_pass.simps [simp del]

definition go_sort :: "cell list \<Rightarrow> cell list" where
  "go_sort data = sort_key (\<lambda>c. length (candidates c)) (gap_pass 6 data)"

section \<open>Three puzzles\<close>

text \<open>
Two views for stating results: the coordinates and value of a step, and the grid as a
  list of rows.
\<close>

definition xyz :: "Step \<Rightarrow> nat \<times> nat \<times> Value" where
  "xyz s = (X s, Y s, Z s)"

definition grid_rows :: "Game \<Rightarrow> Value option list list" where
  "grid_rows g = map (\<lambda>x. map (\<lambda>y. Square_Get (square g) x y) [0..<9]) [0..<9]"

text \<open>
A puzzle whose sweep fixes nothing: seven cells are empty, each with two or three
  candidates. \<open>game5\<close> is the game \<open>Load\<close> makes of it, \<open>root5\<close> the game as \<open>Solve\<close> starts
  it (with a channel and a deadline), \<open>stuck5\<close> the game after the first sweep, \<open>child5\<close>
  the first child of the branching, \<open>swept5\<close> and \<open>solution5\<close> that child after one and two
  sweeps.
\<close>

definition puzzle5 :: string where
  "puzzle5 = ''5 3 4 6 7 8 9 1 2\<newline>6 7 2 1 9 5 3 4 8\<newline>1 9 8 3 4 2 5 6 7\<newline>8 5 9 7 6 1 4 2 3\<newline>4 _ _ 8 5 3 7 9 _\<newline>7 _ 3 9 2 4 8 5 _\<newline>9 _ _ 5 3 7 2 8 4\<newline>2 8 7 4 1 9 6 3 5\<newline>3 4 5 2 8 6 1 7 9''"

definition game5 :: Game where
  "game5 = projr (Load puzzle5)"

definition root5 :: Game where
  "root5 = game5\<lparr>solutionChannel := Some 1, deadline := 10\<rparr>"

definition stuck5 :: Game where
  "stuck5 = snd (step root5)"

definition child5 :: Game where
  "child5 = hd (guessAndContinue go_sort stuck5)"

definition swept5 :: Game where
  "swept5 = snd (step child5)"

definition solution5 :: Game where
  "solution5 = snd (step swept5)"

text \<open>
A puzzle with the token \<open>0\<close> in its first cell and one empty cell: \<open>game0\<close> is the game
  \<open>Load\<close> makes of it, \<open>root0\<close> the game as \<open>Solve\<close> starts it and \<open>solution0\<close> the game
  after one sweep.
\<close>

definition puzzle0 :: string where
  "puzzle0 = ''0 3 4 6 7 8 9 1 2\<newline>6 7 2 1 9 5 3 4 8\<newline>1 9 8 3 4 2 5 6 7\<newline>8 5 9 7 6 1 4 2 3\<newline>4 2 6 8 5 3 7 9 1\<newline>7 1 3 9 2 4 8 5 6\<newline>9 6 1 5 3 7 2 8 4\<newline>2 8 7 4 1 9 6 3 5\<newline>3 4 5 2 8 6 1 7 _''"

definition game0 :: Game where
  "game0 = projr (Load puzzle0)"

definition root0 :: Game where
  "root0 = game0\<lparr>solutionChannel := Some 1, deadline := 10\<rparr>"

definition solution0 :: Game where
  "solution0 = snd (step root0)"

text \<open>
A puzzle whose sweep runs into a cell without candidate: the last cell of the first
  row has the single candidate 9, and once 9 is placed there the last cell of the second
  row has none. \<open>game9\<close> is the game \<open>Load\<close> makes of it and \<open>dead9\<close> the game after the
  sweep.
\<close>

definition puzzle9 :: string where
  "puzzle9 = ''1 2 3 4 5 6 7 8 _\<newline>4 5 6 7 8 1 2 3 _\<newline>_ _ _ _ _ _ _ _ _\<newline>_ _ _ _ _ _ _ _ _\<newline>_ _ _ _ _ _ _ _ _\<newline>_ _ _ _ _ _ _ _ _\<newline>_ _ _ _ _ _ _ _ _\<newline>_ _ _ _ _ _ _ _ _\<newline>_ _ _ _ _ _ _ _ _''"

definition game9 :: Game where
  "game9 = projr (Load puzzle9)"

definition dead9 :: Game where
  "dead9 = snd (step game9)"

section \<open>The collector\<close>

lemma solutionExists_iff:
  "solutionExists solutions s \<longleftrightarrow> (\<exists>a \<in> set solutions. square a = square s)"
  by (simp add: solutionExists_def list_ex_iff)

lemma accept_all_prefix: "\<exists>zs. accept_all arrivals acc = acc @ zs"
proof (induction arrivals arbitrary: acc)
  case Nil
  show ?case by simp
next
  case (Cons s arrivals)
  show ?case
  proof (cases "\<exists>a \<in> set acc. square a = square s")
    case True
    with Cons.IH [of acc] show ?thesis by simp
  next
    case False
    from Cons.IH [of "acc @ [s]"] obtain zs where "accept_all arrivals (acc @ [s]) = (acc @ [s]) @ zs" ..
    with False show ?thesis by simp
  qed
qed

lemma accept_all_distinct:
  "distinct (map square acc) \<Longrightarrow> distinct (map square (accept_all arrivals acc))"
proof (induction arrivals arbitrary: acc)
  case Nil
  then show ?case by simp
next
  case (Cons s arrivals)
  show ?case
  proof (cases "\<exists>a \<in> set acc. square a = square s")
    case True
    with Cons.IH [OF Cons.prems] show ?thesis by simp
  next
    case False
    with Cons.prems have "distinct (map square (acc @ [s]))" by auto
    from Cons.IH [OF this] False show ?thesis by simp
  qed
qed

lemma outerLoop_take:
  "int (length acc) < max 1 m \<Longrightarrow>
   outerLoop arrivals acc m = take (nat (max 1 m)) (accept_all arrivals acc)"
proof (induction arrivals arbitrary: acc)
  case Nil
  then show ?case by simp
next
  case (Cons s arrivals)
  show ?case
  proof (cases "\<exists>a \<in> set acc. square a = square s")
    case True
    with Cons show ?thesis by (simp add: solutionExists_iff)
  next
    case False
    show ?thesis
    proof (cases "m \<le> int (length (acc @ [s]))")
      case full: True
      obtain zs where zs: "accept_all arrivals (acc @ [s]) = (acc @ [s]) @ zs"
        using accept_all_prefix by blast
      from full Cons.prems have "nat (max 1 m) = length (acc @ [s])" by auto
      with zs have "take (nat (max 1 m)) (accept_all arrivals (acc @ [s])) = acc @ [s]"
        by simp
      with False full show ?thesis by (simp add: solutionExists_iff)
    next
      case more: False
      then have "int (length (acc @ [s])) < max 1 m" by simp
      from Cons.IH [OF this] False more show ?thesis by (simp add: solutionExists_iff)
    qed
  qed
qed

lemma waitforCompletion_subset:
  "set (fst (waitforCompletion Verbose arrivals m)) \<subseteq> set arrivals"
proof -
  have "set (outerLoop arrivals acc m) \<subseteq> set acc \<union> set arrivals" for acc
  proof (induction arrivals arbitrary: acc)
    case Nil
    show ?case by simp
  next
    case (Cons a arrivals)
    from Cons [of acc] Cons [of "acc @ [a]"] show ?case by auto
  qed
  from this [of "[]"] show ?thesis by (simp add: waitforCompletion_def Let_def)
qed

section \<open>What the grid queries return\<close>

lemma present_iff: "v \<in> present sq ps \<longleftrightarrow> (\<exists>p \<in> set ps. cells sq p = Some v)"
proof
  assume "v \<in> present sq ps"
  then obtain p where "p \<in> set ps" "cells sq p \<noteq> None" "v = the (cells sq p)"
    by (auto simp: present_def map_filter_def)
  then show "\<exists>p \<in> set ps. cells sq p = Some v" by auto
next
  assume "\<exists>p \<in> set ps. cells sq p = Some v"
  then obtain p where p: "p \<in> set ps" "cells sq p = Some v" by blast
  then have "p \<in> {q \<in> set ps. cells sq q \<noteq> None}" "(the \<circ> cells sq) p = v" by simp_all
  then have "v \<in> (the \<circ> cells sq) ` {q \<in> set ps. cells sq q \<noteq> None}" by blast
  then show "v \<in> present sq ps" by (simp add: present_def map_filter_def)
qed

lemma GetRowValues_iff: "v \<in> GetRowValues sq x \<longleftrightarrow> (\<exists>y < Size sq. cells sq (x, y) = Some v)"
  unfolding GetRowValues_def present_iff by (simp add: Bex_def image_iff)

lemma GetColumnValues_iff: "v \<in> GetColumnValues sq y \<longleftrightarrow> (\<exists>x < Size sq. cells sq (x, y) = Some v)"
  unfolding GetColumnValues_def present_iff by (simp add: Bex_def image_iff)

lemma div3_range: "(k div 3 * 3 \<le> (i::nat) \<and> i < k div 3 * 3 + 3) \<longleftrightarrow> i div 3 = k div 3"
proof
  assume "k div 3 * 3 \<le> i \<and> i < k div 3 * 3 + 3"
  then have "3 * (k div 3) \<le> i" "i < 3 * Suc (k div 3)" by simp_all
  then show "i div 3 = k div 3" by (rule div_nat_eqI)
next
  assume e: "i div 3 = k div 3"
  have "i div 3 * 3 \<le> i" "i < i div 3 * 3 + 3" by arith+
  with e show "k div 3 * 3 \<le> i \<and> i < k div 3 * 3 + 3" by simp
qed

lemma section_cells_iff:
  "(i, j) \<in> set (section_cells x y) \<longleftrightarrow> i div 3 = x div 3 \<and> j div 3 = y div 3"
proof -
  have "(i, j) \<in> set (section_cells x y) \<longleftrightarrow>
      (x div 3 * 3 \<le> i \<and> i < x div 3 * 3 + 3) \<and> (y div 3 * 3 \<le> j \<and> j < y div 3 * 3 + 3)"
    by (force simp: section_cells_def SECTION_SIZE_def)
  then show ?thesis by (simp only: div3_range)
qed

lemma GetSectionValues_iff:
  "v \<in> GetSectionValues sq x y \<longleftrightarrow>
     (\<exists>i j. i div 3 = x div 3 \<and> j div 3 = y div 3 \<and> cells sq (i, j) = Some v)"
proof -
  have "v \<in> GetSectionValues sq x y \<longleftrightarrow> (\<exists>i j. (i, j) \<in> set (section_cells x y) \<and> cells sq (i, j) = Some v)"
    by (auto simp: GetSectionValues_def present_iff)
  then show ?thesis by (simp only: section_cells_iff conj_assoc)
qed

lemma upto_1_9: "[1..9] = [1, 2, 3, 4, 5, 6, 7, 8, 9::int]"
  by code_simp

lemma makeFull_eq: "makeFull n = {1..9}"
  unfolding makeFull_def NewValueSet_def upto_1_9 [symmetric] by simp

lemma findCandidates_set: "set (findCandidates S) = {1..9} - S"
  by (simp add: findCandidates_def ToSlice_def Difference_def makeFull_eq)

lemma findCandidates_distinct: "distinct (findCandidates S)"
  by (simp add: findCandidates_def ToSlice_def)

lemma findCandidates_length: "length (findCandidates S) = card ({1..9} - S)"
  by (simp add: findCandidates_def ToSlice_def Difference_def makeFull_eq)

lemma Game_findCandidates_set:
  "set (Game_findCandidates g x y) = candidate_set (square g) x y"
  by (auto simp: Game_findCandidates_def findCandidates_set mergeValues_def Union_def
      candidate_set_def GetRowValues_iff GetColumnValues_iff GetSectionValues_iff)

lemma Game_findCandidates_distinct: "distinct (Game_findCandidates g x y)"
  by (simp add: Game_findCandidates_def findCandidates_distinct)

lemma Game_findCandidates_empty:
  "length (Game_findCandidates g x y) = 0 \<longleftrightarrow> candidate_set (square g) x y = {}"
  using Game_findCandidates_set [of g x y] by auto

lemma Game_findCandidates_single:
  "length (Game_findCandidates g x y) = 1 \<longleftrightarrow> is_singleton (candidate_set (square g) x y)"
proof -
  have "length (Game_findCandidates g x y) = card (candidate_set (square g) x y)"
    using distinct_card [OF Game_findCandidates_distinct, of g x y]
    by (simp add: Game_findCandidates_set)
  then show ?thesis by (simp add: is_singleton_altdef)
qed

lemma Game_findCandidates_the_elem:
  assumes "length (Game_findCandidates g x y) = 1"
  shows "Game_findCandidates g x y ! 0 = the_elem (candidate_set (square g) x y)"
proof -
  from assms obtain v where v: "Game_findCandidates g x y = [v]"
    by (cases "Game_findCandidates g x y") auto
  then have "candidate_set (square g) x y = {v}"
    using Game_findCandidates_set [of g x y] by simp
  with v show ?thesis by simp
qed

section \<open>The sweep of the specification\<close>

lemma step_cell_sweep:
  "(case step_cell x y n g of Inl g' \<Rightarrow> (- 1, g') | Inr (n', g') \<Rightarrow> sweep rest n' g') =
   sweep ((x, y) # rest) n g"
proof (cases "cells (square g) (x, y) \<noteq> None")
  case True
  then show ?thesis by (simp add: step_cell_def Square_Has_def)
next
  case empty: False
  show ?thesis
  proof (cases "length (Game_findCandidates g x y) = 0")
    case True
    with empty show ?thesis
      using Game_findCandidates_empty [of g x y]
      by (simp add: step_cell_def Square_Has_def Let_def)
  next
    case nonzero: False
    show ?thesis
    proof (cases "length (Game_findCandidates g x y) = 1")
      case True
      then have "Game_findCandidates g x y \<noteq> []" by auto
      with True empty nonzero show ?thesis
        using Game_findCandidates_empty [of g x y] Game_findCandidates_single [of g x y]
          Game_findCandidates_the_elem [of g x y]
        by (simp add: step_cell_def Square_Has_def Let_def set_cell_def Square_Set_def)
    next
      case False
      with empty nonzero show ?thesis
        using Game_findCandidates_empty [of g x y] Game_findCandidates_single [of g x y]
        by (simp add: step_cell_def Square_Has_def Let_def)
    qed
  qed
qed

lemma step_columns_sweep:
  "Size (square g) = N \<Longrightarrow>
   (case step_columns x y n g of Inl g' \<Rightarrow> (- 1, g') | Inr (n', g') \<Rightarrow> sweep rest n' g') =
   sweep (map (Pair x) [y..<N] @ rest) n g"
proof (induction x y n g rule: step_columns.induct)
  case (1 x y n g)
  show ?case
  proof (cases "y < Size (square g)")
    case False
    with "1.prems" show ?thesis by (simp add: step_columns.simps [of x y n g])
  next
    case True
    with "1.prems" have u: "[y..<N] = y # [y + 1..<N]" by (simp add: upt_conv_Cons)
    show ?thesis
    proof (cases "step_cell x y n g")
      case (Inl g')
      with True show ?thesis
        using step_cell_sweep [where x = x and y = y and n = n and g = g and rest = "map (Pair x) [y + 1..<N] @ rest"]
        by (simp add: step_columns.simps [of x y n g] u)
    next
      case (Inr r)
      obtain m h where r: "r = (m, h)" by (cases r)
      from Inr r step_cell_Size have "Size (square h) = N" using "1.prems" by metis
      from "1.IH" [OF True Inr [unfolded r] refl this] Inr r True show ?thesis
        using step_cell_sweep [where x = x and y = y and n = n and g = g and rest = "map (Pair x) [y + 1..<N] @ rest"]
        by (simp add: step_columns.simps [of x y n g] u)
    qed
  qed
qed

lemma step_rows_sweep:
  "Size (square g) = N \<Longrightarrow>
   (case step_rows x n g of Inl g' \<Rightarrow> (- 1, g') | Inr (n', g') \<Rightarrow> (n', g')) =
   sweep (concat (map (\<lambda>x. map (Pair x) [0..<N]) [x..<N])) n g"
proof (induction x n g rule: step_rows.induct)
  case (1 x n g)
  show ?case
  proof (cases "x < Size (square g)")
    case False
    with "1.prems" show ?thesis by (simp add: step_rows.simps [of x n g])
  next
    case True
    with "1.prems" have u: "[x..<N] = x # [x + 1..<N]" by (simp add: upt_conv_Cons)
    let ?rest = "concat (map (\<lambda>x. map (Pair x) [0..<N]) [x + 1..<N])"
    show ?thesis
    proof (cases "step_columns x 0 n g")
      case (Inl g')
      with True show ?thesis
        using step_columns_sweep [OF "1.prems", where x = x and y = 0 and n = n and rest = ?rest]
        by (simp add: step_rows.simps [of x n g] u)
    next
      case (Inr r)
      obtain m h where r: "r = (m, h)" by (cases r)
      from Inr r step_columns_Size have "Size (square h) = N" using "1.prems" by metis
      from "1.IH" [OF True Inr [unfolded r] refl this] Inr r True show ?thesis
        using step_columns_sweep [OF "1.prems", where x = x and y = 0 and n = n and rest = ?rest]
        by (simp add: step_rows.simps [of x n g] u)
    qed
  qed
qed

lemma step_sweep_coords: "step g = sweep (coords (Size (square g))) 0 g"
  using step_rows_sweep [OF refl, where g = g and x = 0 and n = 0]
  by (simp add: step_def coords_def split: sum.splits)

section \<open>The branching cell\<close>

lemma collect_fold:
  "fold (\<lambda>(x, y). collect_cell g x y) ps acc = acc @ map (cell_at g) (filter (open_cell g) ps)"
  by (induction ps arbitrary: acc)
     (auto simp: collect_cell_def open_cell_def cell_at_def Let_def)

lemma Iterate_collect:
  "Iterate (square g) (collect_cell g) [] = map (cell_at g) (filter (open_cell g) (coords (Size (square g))))"
  by (simp add: Iterate_def collect_fold)

lemma coords_iff: "(x, y) \<in> set (coords n) \<longleftrightarrow> x < n \<and> y < n"
  by (force simp: coords_def)

lemma sort_contract_set: "sort_contract srt \<Longrightarrow> set (srt cs) = set cs"
proof -
  assume "sort_contract srt"
  then have "mset (srt cs) = mset cs" by (simp add: sort_contract_def)
  then show ?thesis by (rule mset_eq_setD)
qed

lemma sort_contract_hd:
  assumes "sort_contract srt" "srt cs = b # rest" "c \<in> set cs"
  shows "length (candidates b) \<le> length (candidates c)"
proof -
  from assms(1) have s: "sorted_wrt (\<lambda>a b. \<not> Less b a) (srt cs)" and e: "set (srt cs) = set cs"
    by (simp_all add: sort_contract_def sort_contract_set)
  from e assms have "c = b \<or> c \<in> set rest" by auto
  with s assms(2) show ?thesis by (auto simp: Less_def)
qed

lemma mset_gap_pass: "mset (gap_pass i data) = mset data"
proof (induction i data rule: gap_pass.induct)
  case (1 i data)
  show ?case
  proof (cases "i < length data")
    case False
    then show ?thesis by (simp add: gap_pass.simps [of i data])
  next
    case True
    then have "mset (data[i := data ! (i - 6), i - 6 := data ! i]) = mset data"
      by (simp add: mset_swap)
    with "1.IH" [OF True] True show ?thesis by (simp add: gap_pass.simps [of i data])
  qed
qed

lemma go_sort_contract: "sort_contract go_sort"
proof -
  have "sorted_wrt (\<lambda>a b. \<not> Less b a) (go_sort cs)" for cs
  proof -
    have "sorted (map (\<lambda>c. length (candidates c)) (go_sort cs))"
      by (simp add: go_sort_def)
    then have "sorted_wrt (\<lambda>a b. length (candidates a) \<le> length (candidates b)) (go_sort cs)"
      by (simp only: sorted_map)
    then show ?thesis by (simp add: Less_def not_less)
  qed
  moreover have "mset (go_sort cs) = mset cs" for cs
    by (simp add: go_sort_def mset_gap_pass)
  ultimately show ?thesis by (simp add: sort_contract_def)
qed

lemma guessAndContinue_children:
  assumes "sort_contract srt" "c \<in> set (guessAndContinue srt g)"
  shows "\<exists>x y v. x < Size (square g) \<and> y < Size (square g) \<and> cells (square g) (x, y) = None \<and>
           v \<in> candidate_set (square g) x y \<and> c = set_cell (copy g) x y v False True"
proof -
  let ?cs = "Iterate (square g) (collect_cell g) []"
  from assms(2) obtain b rest cand where
    srt: "srt ?cs = b # rest" and cand: "cand \<in> set (candidates b)"
    and c: "c = set_cell (copy g) (cell_x b) (cell_y b) cand False True"
    by (cases "srt ?cs") (auto simp: guessAndContinue_def findCellsWithLeastCandidates_def Let_def)
  from srt have "b \<in> set ?cs" using sort_contract_set [OF assms(1), of ?cs] by auto
  then obtain p where p: "p \<in> set (coords (Size (square g)))" "open_cell g p" "b = cell_at g p"
    by (auto simp: Iterate_collect)
  obtain x y where xy: "p = (x, y)" by (cases p)
  from p xy have "x < Size (square g)" "y < Size (square g)" by (simp_all add: coords_iff)
  moreover from p xy have "cells (square g) (x, y) = None"
    by (simp add: open_cell_def Square_Has_def)
  moreover from p xy cand have "cand \<in> candidate_set (square g) x y"
    by (simp add: cell_at_def Game_findCandidates_set)
  moreover from c p xy have "c = set_cell (copy g) x y cand False True"
    by (simp add: cell_at_def)
  ultimately show ?thesis by blast
qed

lemma square_child: "square (set_cell (copy g) x y v i b) = place (square g) x y v"
  by (simp add: set_cell_def copy_def Square_Set_def Square_Copy_def place_def)

text \<open>
The branching cell, with any sorting routine that keeps the promise of \<open>sort.Sort\<close>:
  when no empty cell has more than one candidate, nothing is started; otherwise the cell
  \<open>guessAndContinue\<close> branches on is an empty cell of the grid with more than one
  candidate and with no more candidates than any other such cell, and the tasks started
  are one per candidate value of that single cell, each on a copy of the game with the
  value placed there. Which of several cells with the least number of candidates comes
  first is left to the sorting routine. A task whose sweep fixed nothing reports only
  through these children.
\<close>

lemma guessAndContinue_least_candidates:
  assumes "sort_contract srt"
  shows "(case findCellsWithLeastCandidates srt g of
            [] \<Rightarrow>
              guessAndContinue srt g = [] \<and>
              \<not> (\<exists>x < Size (square g). \<exists>y < Size (square g).
                    \<not> Square_Has (square g) x y \<and> 1 < length (Game_findCandidates g x y))
          | b # rest \<Rightarrow>
              cell_x b < Size (square g) \<and> cell_y b < Size (square g) \<and>
              \<not> Square_Has (square g) (cell_x b) (cell_y b) \<and>
              candidates b = Game_findCandidates g (cell_x b) (cell_y b) \<and>
              1 < length (candidates b) \<and> distinct (candidates b) \<and>
              (\<forall>x < Size (square g). \<forall>y < Size (square g).
                 \<not> Square_Has (square g) x y \<and> 1 < length (Game_findCandidates g x y) \<longrightarrow>
                 length (candidates b) \<le> length (Game_findCandidates g x y)) \<and>
              guessAndContinue srt g =
                map (\<lambda>cand. set_cell (copy g) (cell_x b) (cell_y b) cand False True) (candidates b)) \<and>
         (\<forall>i g0 s. step g0 = (0, g) \<longrightarrow> reports srt i g0 s \<longrightarrow>
            (\<exists>c \<in> set (guessAndContinue srt g). reports srt 0 c s))"
proof -
  let ?N = "Size (square g)"
  let ?cs = "Iterate (square g) (collect_cell g) []"
  have mem: "c \<in> set ?cs \<longleftrightarrow> (\<exists>x < ?N. \<exists>y < ?N. open_cell g (x, y) \<and> c = cell_at g (x, y))" for c
  proof -
    have "c \<in> set ?cs \<longleftrightarrow> (\<exists>p. p \<in> set (coords ?N) \<and> open_cell g p \<and> c = cell_at g p)"
      by (auto simp: Iterate_collect)
    also have "\<dots> \<longleftrightarrow> (\<exists>x y. (x, y) \<in> set (coords ?N) \<and> open_cell g (x, y) \<and> c = cell_at g (x, y))"
      by simp
    finally show ?thesis by (simp only: coords_iff) blast
  qed
  have part1: "(case findCellsWithLeastCandidates srt g of
            [] \<Rightarrow>
              guessAndContinue srt g = [] \<and>
              \<not> (\<exists>x < ?N. \<exists>y < ?N.
                    \<not> Square_Has (square g) x y \<and> 1 < length (Game_findCandidates g x y))
          | b # rest \<Rightarrow>
              cell_x b < ?N \<and> cell_y b < ?N \<and>
              \<not> Square_Has (square g) (cell_x b) (cell_y b) \<and>
              candidates b = Game_findCandidates g (cell_x b) (cell_y b) \<and>
              1 < length (candidates b) \<and> distinct (candidates b) \<and>
              (\<forall>x < ?N. \<forall>y < ?N.
                 \<not> Square_Has (square g) x y \<and> 1 < length (Game_findCandidates g x y) \<longrightarrow>
                 length (candidates b) \<le> length (Game_findCandidates g x y)) \<and>
              guessAndContinue srt g =
                map (\<lambda>cand. set_cell (copy g) (cell_x b) (cell_y b) cand False True) (candidates b))"
  proof (cases "findCellsWithLeastCandidates srt g")
    case Nil
    then have "set ?cs = {}"
      using sort_contract_set [OF assms, of ?cs] by (simp add: findCellsWithLeastCandidates_def)
    have "\<not> (\<exists>x < ?N. \<exists>y < ?N. open_cell g (x, y))"
    proof
      assume "\<exists>x < ?N. \<exists>y < ?N. open_cell g (x, y)"
      then obtain x y where "x < ?N" "y < ?N" "open_cell g (x, y)" by blast
      then have "cell_at g (x, y) \<in> set ?cs" by (subst mem) blast
      with \<open>set ?cs = {}\<close> show False by simp
    qed
    with Nil show ?thesis by (simp add: guessAndContinue_def open_cell_def)
  next
    case (Cons b rest)
    then have srt: "srt ?cs = b # rest" by (simp add: findCellsWithLeastCandidates_def)
    then have "b \<in> set ?cs" using sort_contract_set [OF assms, of ?cs] by auto
    then obtain x y where xy: "x < ?N" "y < ?N" "open_cell g (x, y)" "b = cell_at g (x, y)"
      using mem by blast
    have least: "length (candidates b) \<le> length (Game_findCandidates g x' y')"
      if "x' < ?N" "y' < ?N" "\<not> Square_Has (square g) x' y'" "1 < length (Game_findCandidates g x' y')"
      for x' y'
    proof -
      from that have "cell_at g (x', y') \<in> set ?cs" using mem by (auto simp: open_cell_def)
      from sort_contract_hd [OF assms srt this] show ?thesis by (simp add: cell_at_def)
    qed
    have "distinct (candidates b)"
      using xy by (simp add: cell_at_def Game_findCandidates_distinct)
    with xy least Cons show ?thesis
      by (simp add: guessAndContinue_def open_cell_def cell_at_def)
  qed
  have part2: "\<exists>c \<in> set (guessAndContinue srt g). reports srt 0 c s"
    if "step g0 = (0, g)" "reports srt i g0 s" for i g0 s
    using that(2) that(1) by (cases rule: reports.cases) auto
  from part1 part2 show ?thesis by blast
qed

section \<open>What every placement keeps\<close>

text \<open>
Every value the search puts into a grid goes into an empty cell inside the grid and is
  one of the candidates of that cell. A property of grids that such a placement keeps is
  \<open>placement_closed\<close>; the lemmas of this section carry it through a sweep, to the
  children of a branching point, to everything a task reports and to everything \<open>Solve\<close>
  returns.
\<close>

lemma placement_closedD:
  "placement_closed P \<Longrightarrow> P sq \<Longrightarrow> x < Size sq \<Longrightarrow> y < Size sq \<Longrightarrow> cells sq (x, y) = None \<Longrightarrow>
   v \<in> candidate_set sq x y \<Longrightarrow> P (place sq x y v)"
  unfolding placement_closed_def by blast

lemma sweep_invariant:
  assumes "placement_closed P"
  shows "P (square g) \<Longrightarrow> \<forall>p \<in> set ps. fst p < Size (square g) \<and> snd p < Size (square g) \<Longrightarrow>
         P (square (snd (sweep ps n g))) \<and> Size (square (snd (sweep ps n g))) = Size (square g)"
proof (induction ps arbitrary: n g)
  case Nil
  then show ?case by simp
next
  case (Cons p ps)
  obtain x y where p: "p = (x, y)" by (cases p)
  from Cons.prems p have b: "x < Size (square g)" "y < Size (square g)"
    and rest: "\<forall>p \<in> set ps. fst p < Size (square g) \<and> snd p < Size (square g)" by auto
  note IH = Cons.IH [OF Cons.prems(1) rest]
  consider (full) "cells (square g) (x, y) \<noteq> None"
    | (none) "cells (square g) (x, y) = None" "candidate_set (square g) x y = {}"
    | (one) "cells (square g) (x, y) = None" "candidate_set (square g) x y \<noteq> {}"
        "is_singleton (candidate_set (square g) x y)"
    | (more) "cells (square g) (x, y) = None" "candidate_set (square g) x y \<noteq> {}"
        "\<not> is_singleton (candidate_set (square g) x y)"
    by blast
  then show ?case
  proof cases
    case full
    with IH [of n] p show ?thesis by simp
  next
    case none
    with Cons.prems(1) p show ?thesis by simp
  next
    case more
    with IH [of n] p show ?thesis by simp
  next
    case one
    let ?v = "the_elem (candidate_set (square g) x y)"
    let ?g = "g\<lparr>square := (square g)\<lparr>cells := (cells (square g))((x, y) \<mapsto> ?v)\<rparr>,
                Steps := Steps g @ [\<lparr>X = x, Y = y, Z = ?v, Initial = False, IsGuess = False\<rparr>]\<rparr>"
    from one(3) obtain w where "candidate_set (square g) x y = {w}" by (rule is_singletonE)
    then have v: "?v \<in> candidate_set (square g) x y" by simp
    have P: "P (square ?g)"
      using placement_closedD [OF assms Cons.prems(1) b one(1) v] by (simp add: place_def)
    have r: "\<forall>p \<in> set ps. fst p < Size (square ?g) \<and> snd p < Size (square ?g)"
      using rest by simp
    have "sweep (p # ps) n g = sweep ps (n + 1) ?g"
      using one p by simp
    with Cons.IH [OF P r, of "n + 1"] show ?thesis by simp
  qed
qed

lemma step_invariant:
  assumes "placement_closed P" "P (square g)"
  shows "P (square (snd (step g)))" "Size (square (snd (step g))) = Size (square g)"
proof -
  have "\<forall>p \<in> set (coords (Size (square g))). fst p < Size (square g) \<and> snd p < Size (square g)"
    using coords_iff by auto
  from sweep_invariant [OF assms(1) assms(2) this, of 0]
  show "P (square (snd (step g)))" "Size (square (snd (step g))) = Size (square g)"
    by (simp_all add: step_sweep_coords)
qed

lemma reports_invariant:
  assumes "reports srt i g s" "sort_contract srt" "placement_closed P" "P (square g)"
  shows "P (square s)"
  using assms(1) assms(4)
proof (induction rule: reports.induct)
  case (solved i now g n g')
  from step_invariant(1) [OF assms(3) solved.prems, of] solved.hyps(3) show ?case by simp
next
  case (again i now g n g' s)
  from step_invariant(1) [OF assms(3) again.prems] again.hyps(3) have "P (square g')" by simp
  then show ?case by (rule again.IH)
next
  case (stuck i now g n g' c s)
  from step_invariant [OF assms(3) stuck.prems] stuck.hyps(3)
  have P: "P (square g')" by simp
  from guessAndContinue_children [OF assms(2) stuck.hyps(6)] obtain x y v where
    "x < Size (square g')" "y < Size (square g')" "cells (square g') (x, y) = None"
    "v \<in> candidate_set (square g') x y" "c = set_cell (copy g') x y v False True" by blast
  with placement_closedD [OF assms(3) P] have "P (square c)" by (simp add: square_child)
  then show ?case by (rule stuck.IH)
qed

lemma Solve_invariant:
  assumes "Solve srt Verbose g timeout m (sols, err)" "s \<in> set sols"
    "sort_contract srt" "placement_closed P" "P (square g)"
  shows "P (square s)"
proof -
  from assms(1) obtain ch now arrivals where
    a: "list_all (reports srt 0 (g\<lparr>solutionChannel := Some ch, deadline := now + timeout\<rparr>)) arrivals"
    and w: "(sols, err) = waitforCompletion Verbose arrivals m"
    by (rule Solve.cases) auto
  from w have "sols = fst (waitforCompletion Verbose arrivals m)" by (metis fst_conv)
  with assms(2) have "s \<in> set arrivals"
    using waitforCompletion_subset [of Verbose arrivals m] by blast
  with a have "reports srt 0 (g\<lparr>solutionChannel := Some ch, deadline := now + timeout\<rparr>) s"
    by (simp add: list_all_iff)
  from reports_invariant [OF this assms(3) assms(4)] assms(5) show ?thesis by simp
qed

lemma keeps_placement_closed:
  "cells sq0 (x, y) \<noteq> None \<Longrightarrow> placement_closed (\<lambda>sq. cells sq (x, y) = cells sq0 (x, y))"
  by (auto simp: placement_closed_def place_def)

section \<open>Consistent grids\<close>









section \<open>The counter of cells to be solved\<close>










section \<open>The lines Load reads\<close>

lemma split_on_nonempty: "split_on sep s \<noteq> []"
  by (induction s) (auto split: list.splits)

lemma split_on_append: "split_on sep (s @ sep # t) = split_on sep s @ split_on sep t"
proof (induction s)
  case Nil
  show ?case by simp
next
  case (Cons c s)
  obtain w ws where w: "split_on sep s = w # ws"
    using split_on_nonempty [of sep s] by (cases "split_on sep s") auto
  with Cons show ?case by simp
qed

lemma load_lines_take:
  "load_lines x ls n g = load_lines x (take (SQUARE_SIZE - x) ls) n g"
proof (induction ls arbitrary: x n g)
  case Nil
  show ?case by simp
next
  case (Cons l ls)
  show ?case
  proof (cases "x \<ge> SQUARE_SIZE")
    case True
    then show ?thesis by simp
  next
    case False
    then have t: "take (SQUARE_SIZE - x) (l # ls) = l # take (SQUARE_SIZE - (x + 1)) ls"
      by (simp add: take_Cons')
    show ?thesis unfolding t using False Cons [of "x + 1"]
      by (simp add: Let_def split: sum.splits)
  qed
qed

lemma load_lines_takeWhile:
  "load_lines x ls n g = load_lines x (takeWhile (\<lambda>line. line \<noteq> []) ls) n g"
proof (induction ls arbitrary: x n g)
  case Nil
  show ?case by simp
next
  case (Cons l ls)
  show ?case using Cons [of "x + 1"] by (simp add: Let_def split: sum.splits)
qed

lemma load_lines_rows_read:
  "load_lines 0 (split_on CHR 0x0A s) 0 newGame = load_lines 0 (rows_read s) 0 newGame"
  using load_lines_take [of 0 "split_on CHR 0x0A s" 0 newGame]
    load_lines_takeWhile [of 0 "take SQUARE_SIZE (split_on CHR 0x0A s)" 0 newGame]
  by (simp add: rows_read_def)

lemma load_lines_count:
  "\<forall>l \<in> set ls. l \<noteq> [] \<Longrightarrow> x + length ls \<le> SQUARE_SIZE \<Longrightarrow>
   load_lines x ls n g = Inr (n', g') \<Longrightarrow> n' = n + length ls"
proof (induction ls arbitrary: x n g)
  case Nil
  then show ?case by simp
next
  case (Cons l ls)
  from Cons.prems have x: "\<not> x \<ge> SQUARE_SIZE" "l \<noteq> []" by auto
  with Cons.prems(3) obtain g1 where
    "load_lines (x + 1) ls (n + 1) g1 = Inr (n', g')"
    by (auto simp: Let_def split: if_splits sum.splits)
  from Cons.IH [OF _ _ this] Cons.prems show ?case by simp
qed

lemma load_row_error:
  "load_row x y vals g = Inl e \<Longrightarrow> e \<noteq> NotEnoughRows a b"
  by (induction x y vals g rule: load_row.induct) (auto split: if_splits option.splits)

lemma load_lines_error:
  "load_lines x ls n g = Inl e \<Longrightarrow> e \<noteq> NotEnoughRows a b"
proof (induction ls arbitrary: x n g)
  case Nil
  then show ?case by simp
next
  case (Cons l ls)
  then show ?case
    by (auto simp: Let_def split: if_splits sum.splits dest: load_row_error)
qed

lemma rows_read_props:
  "\<forall>l \<in> set (rows_read s). l \<noteq> []" "length (rows_read s) \<le> SQUARE_SIZE"
proof -
  show "\<forall>l \<in> set (rows_read s). l \<noteq> []"
    unfolding rows_read_def by (auto dest: set_takeWhileD)
  have "length (rows_read s) \<le> length (take SQUARE_SIZE (split_on CHR 0x0A s))"
    unfolding rows_read_def by (rule length_takeWhile_le)
  then show "length (rows_read s) \<le> SQUARE_SIZE" by simp
qed

lemma Load_rows_read:
  "Load s =
     (case load_lines 0 (rows_read s) 0 newGame of
        Inl e \<Rightarrow> Inl e
      | Inr (k, game) \<Rightarrow>
          if length (rows_read s) < SQUARE_SIZE
          then Inl (NotEnoughRows SQUARE_SIZE (length (rows_read s)))
          else Inr (game\<lparr>CellsToBeSolved := countEmptyValues game\<rparr>))"
proof (cases "load_lines 0 (rows_read s) 0 newGame")
  case (Inl e)
  then show ?thesis by (simp add: Load_def load_lines_rows_read)
next
  case (Inr r)
  obtain k game where r: "r = (k, game)" by (cases r)
  from load_lines_count [OF rows_read_props(1) _ Inr [unfolded r]] rows_read_props(2) [of s]
  have k: "k = length (rows_read s)" by simp
  with rows_read_props(2) [of s] Inr r show ?thesis
    by (auto simp: Load_def load_lines_rows_read)
qed

lemma rows_read_append:
  assumes "length (rows_read s) = SQUARE_SIZE"
  shows "rows_read (s @ CHR 0x0A # extra) = rows_read s"
proof -
  let ?ls = "split_on CHR 0x0A s"
  from assms have "SQUARE_SIZE \<le> length (take SQUARE_SIZE ?ls)"
    using length_takeWhile_le [of "\<lambda>line. line \<noteq> []" "take SQUARE_SIZE ?ls"]
    by (simp add: rows_read_def)
  then have "SQUARE_SIZE \<le> length ?ls" by simp
  then have "take SQUARE_SIZE (?ls @ split_on CHR 0x0A extra) = take SQUARE_SIZE ?ls" by simp
  then show ?thesis by (simp only: rows_read_def split_on_append)
qed

section \<open>The puzzles, run\<close>

text \<open>
The run of \<open>puzzle5\<close>: loading, the sweep that fixes nothing, the cells collected for
  branching and the cell chosen, the two children, and the two sweeps that complete the
  first child.
\<close>

lemma run5:
  "case Load puzzle5 of
     Inl e \<Rightarrow> False
   | Inr g \<Rightarrow>
       (CellsToBeSolved g = 7 \<and> countEmptyValues g = 7 \<and> length (Steps g) = 74 \<and>
        list_all Initial (Steps g) \<and> Size (square g) = 9 \<and> Square_Has (square g) 0 0 \<and>
        Square_Get (square g) 0 0 = Some 5) \<and>
       (case step (g\<lparr>solutionChannel := Some 1, deadline := 10\<rparr>) of
          (n, st) \<Rightarrow>
            n = 0 \<and>
            (map (\<lambda>c. (cell_x c, cell_y c, length (candidates c)))
                 (Iterate (square st) (collect_cell st) []) =
               [(4, 1, 3), (4, 2, 2), (4, 8, 2), (5, 1, 2), (5, 8, 2), (6, 1, 2), (6, 2, 2)] \<and>
             map (\<lambda>c. (cell_x c, cell_y c)) (take 1 (findCellsWithLeastCandidates go_sort st)) =
               [(6, 2)] \<and>
             length (Steps st) = 74 \<and> list_all Initial (Steps st)) \<and>
            (case guessAndContinue go_sort st of
               [] \<Rightarrow> False
             | c # cs \<Rightarrow>
                 (length cs = 1 \<and>
                  list_all (\<lambda>d. length (Steps d) = 75 \<and> \<not> list_ex Initial (Steps d) \<and>
                               map xyz (butlast (Steps d)) = map xyz (Steps st) \<and>
                               IsGuess (last (Steps d)) \<and> \<not> Initial (last (Steps d)) \<and>
                               deadline d = deadline st \<and> solutionChannel d = solutionChannel st)
                     (c # cs) \<and>
                  CellsToBeSolved c = 7 \<and> countEmptyValues c = 6 \<and>
                  Size (square c) = 9 \<and> Game_findCandidates c 4 1 = [1, 2, 6] \<and>
                  Game_findCandidates c 4 2 = [6]) \<and>
                 (case step c of
                    (m, sw) \<Rightarrow>
                      m = 5 \<and> countEmptyValues sw = 1 \<and>
                      (case step sw of
                         (k, s) \<Rightarrow>
                           k = 1 \<and> countEmptyValues s = 0 \<and> CellsToBeSolved s = 7 \<and>
                           GuessCount s = 1 \<and> Square_Get (square s) 0 0 = Some 5 \<and>
                           grid_rows s =
                             [[Some 5, Some 3, Some 4, Some 6, Some 7, Some 8, Some 9, Some 1, Some 2],
                              [Some 6, Some 7, Some 2, Some 1, Some 9, Some 5, Some 3, Some 4, Some 8],
                              [Some 1, Some 9, Some 8, Some 3, Some 4, Some 2, Some 5, Some 6, Some 7],
                              [Some 8, Some 5, Some 9, Some 7, Some 6, Some 1, Some 4, Some 2, Some 3],
                              [Some 4, Some 2, Some 6, Some 8, Some 5, Some 3, Some 7, Some 9, Some 1],
                              [Some 7, Some 1, Some 3, Some 9, Some 2, Some 4, Some 8, Some 5, Some 6],
                              [Some 9, Some 6, Some 1, Some 5, Some 3, Some 7, Some 2, Some 8, Some 4],
                              [Some 2, Some 8, Some 7, Some 4, Some 1, Some 9, Some 6, Some 3, Some 5],
                              [Some 3, Some 4, Some 5, Some 2, Some 8, Some 6, Some 1, Some 7, Some 9]]))))"
  by code_simp

lemma run5_facts:
  shows "Load puzzle5 = Inr game5"
    and "CellsToBeSolved game5 = 7" and "countEmptyValues game5 = 7"
    and "list_all Initial (Steps game5)" and "length (Steps game5) = 74"
    and "Size (square game5) = 9" and "Square_Has (square game5) 0 0"
    and "Square_Get (square game5) 0 0 = Some 5"
    and "step root5 = (0, stuck5)"
    and "map (\<lambda>c. (cell_x c, cell_y c, length (candidates c)))
             (Iterate (square stuck5) (collect_cell stuck5) []) =
           [(4, 1, 3), (4, 2, 2), (4, 8, 2), (5, 1, 2), (5, 8, 2), (6, 1, 2), (6, 2, 2)]"
    and "map (\<lambda>c. (cell_x c, cell_y c)) (take 1 (findCellsWithLeastCandidates go_sort stuck5)) =
           [(6, 2)]"
    and "length (Steps stuck5) = 74" and "list_all Initial (Steps stuck5)"
    and "child5 \<in> set (guessAndContinue go_sort stuck5)"
    and "length (guessAndContinue go_sort stuck5) = 2"
    and "list_all (\<lambda>d. length (Steps d) = 75 \<and> \<not> list_ex Initial (Steps d) \<and>
                      map xyz (butlast (Steps d)) = map xyz (Steps stuck5) \<and>
                      IsGuess (last (Steps d)) \<and> \<not> Initial (last (Steps d)) \<and>
                      deadline d = deadline stuck5 \<and> solutionChannel d = solutionChannel stuck5)
           (guessAndContinue go_sort stuck5)"
    and "CellsToBeSolved child5 = 7" and "countEmptyValues child5 = 6"
    and "step child5 = (5, swept5)" and "countEmptyValues swept5 = 1"
    and "step swept5 = (1, solution5)" and "countEmptyValues solution5 = 0"
    and "CellsToBeSolved solution5 = 7" and "GuessCount solution5 = 1"
    and "Square_Get (square solution5) 0 0 = Some 5"
    and "grid_rows solution5 =
           [[Some 5, Some 3, Some 4, Some 6, Some 7, Some 8, Some 9, Some 1, Some 2],
            [Some 6, Some 7, Some 2, Some 1, Some 9, Some 5, Some 3, Some 4, Some 8],
            [Some 1, Some 9, Some 8, Some 3, Some 4, Some 2, Some 5, Some 6, Some 7],
            [Some 8, Some 5, Some 9, Some 7, Some 6, Some 1, Some 4, Some 2, Some 3],
            [Some 4, Some 2, Some 6, Some 8, Some 5, Some 3, Some 7, Some 9, Some 1],
            [Some 7, Some 1, Some 3, Some 9, Some 2, Some 4, Some 8, Some 5, Some 6],
            [Some 9, Some 6, Some 1, Some 5, Some 3, Some 7, Some 2, Some 8, Some 4],
            [Some 2, Some 8, Some 7, Some 4, Some 1, Some 9, Some 6, Some 3, Some 5],
            [Some 3, Some 4, Some 5, Some 2, Some 8, Some 6, Some 1, Some 7, Some 9]]"
    and "Size (square child5) = 9" and "Game_findCandidates child5 4 1 = [1, 2, 6]"
    and "Game_findCandidates child5 4 2 = [6]"
proof -
  from run5 obtain g where L: "Load puzzle5 = Inr g"
    by (cases "Load puzzle5") simp_all
  then have g: "game5 = g" by (simp add: game5_def)
  obtain n st where S1: "step root5 = (n, st)" by (cases "step root5")
  then have st: "stuck5 = st" by (simp add: stuck5_def)
  from S1 have S1': "step (g\<lparr>solutionChannel := Some 1, deadline := 10\<rparr>) = (n, st)"
    by (simp add: root5_def g)
  obtain c cs where G: "guessAndContinue go_sort st = c # cs"
    using run5 L S1' by (cases "guessAndContinue go_sort st") simp_all
  then have c: "child5 = c" by (simp add: child5_def st)
  obtain m sw where S2: "step c = (m, sw)" by (cases "step c")
  then have sw: "swept5 = sw" by (simp add: swept5_def c)
  obtain k s where S3: "step sw = (k, s)" by (cases "step sw")
  then have s: "solution5 = s" by (simp add: solution5_def sw)
  note all = run5 [unfolded L sum.case S1' prod.case G list.case S2 S3]
  from all L g show "Load puzzle5 = Inr game5"
    and "CellsToBeSolved game5 = 7" and "countEmptyValues game5 = 7"
    and "list_all Initial (Steps game5)" and "length (Steps game5) = 74"
    and "Size (square game5) = 9" and "Square_Has (square game5) 0 0"
    and "Square_Get (square game5) 0 0 = Some 5"
    by simp_all
  from all S1 st show "step root5 = (0, stuck5)" by simp
  from all st show "map (\<lambda>c. (cell_x c, cell_y c, length (candidates c)))
             (Iterate (square stuck5) (collect_cell stuck5) []) =
           [(4, 1, 3), (4, 2, 2), (4, 8, 2), (5, 1, 2), (5, 8, 2), (6, 1, 2), (6, 2, 2)]"
    and "map (\<lambda>c. (cell_x c, cell_y c)) (take 1 (findCellsWithLeastCandidates go_sort stuck5)) =
           [(6, 2)]"
    and "length (Steps stuck5) = 74" and "list_all Initial (Steps stuck5)"
    by simp_all
  from G c st show "child5 \<in> set (guessAndContinue go_sort stuck5)" by simp
  from all G st show "length (guessAndContinue go_sort stuck5) = 2" by simp
  from all G st show "list_all (\<lambda>d. length (Steps d) = 75 \<and> \<not> list_ex Initial (Steps d) \<and>
                      map xyz (butlast (Steps d)) = map xyz (Steps stuck5) \<and>
                      IsGuess (last (Steps d)) \<and> \<not> Initial (last (Steps d)) \<and>
                      deadline d = deadline stuck5 \<and> solutionChannel d = solutionChannel stuck5)
           (guessAndContinue go_sort stuck5)" by simp
  from all c show "CellsToBeSolved child5 = 7" and "countEmptyValues child5 = 6" by simp_all
  from all S2 c sw show "step child5 = (5, swept5)" and "countEmptyValues swept5 = 1" by simp_all
  from all S3 sw s show "step swept5 = (1, solution5)" and "countEmptyValues solution5 = 0"
    and "CellsToBeSolved solution5 = 7" and "GuessCount solution5 = 1"
    and "Square_Get (square solution5) 0 0 = Some 5" by simp_all
  from all s show "grid_rows solution5 =
           [[Some 5, Some 3, Some 4, Some 6, Some 7, Some 8, Some 9, Some 1, Some 2],
            [Some 6, Some 7, Some 2, Some 1, Some 9, Some 5, Some 3, Some 4, Some 8],
            [Some 1, Some 9, Some 8, Some 3, Some 4, Some 2, Some 5, Some 6, Some 7],
            [Some 8, Some 5, Some 9, Some 7, Some 6, Some 1, Some 4, Some 2, Some 3],
            [Some 4, Some 2, Some 6, Some 8, Some 5, Some 3, Some 7, Some 9, Some 1],
            [Some 7, Some 1, Some 3, Some 9, Some 2, Some 4, Some 8, Some 5, Some 6],
            [Some 9, Some 6, Some 1, Some 5, Some 3, Some 7, Some 2, Some 8, Some 4],
            [Some 2, Some 8, Some 7, Some 4, Some 1, Some 9, Some 6, Some 3, Some 5],
            [Some 3, Some 4, Some 5, Some 2, Some 8, Some 6, Some 1, Some 7, Some 9]]" by simp
  from all c show "Size (square child5) = 9" and "Game_findCandidates child5 4 1 = [1, 2, 6]"
    and "Game_findCandidates child5 4 2 = [6]" by simp_all
qed

lemma reports5: "reports go_sort 0 root5 solution5"
proof -
  have m: "(0::nat) < maxSteps" "(1::nat) < maxSteps"
    by (simp_all add: maxSteps_def SQUARE_SIZE_def)
  have d: "\<not> deadline g < deadline g" for g :: Game by simp
  have "reports go_sort 1 swept5 solution5"
    by (rule reports.solved [OF m(2) d run5_facts(21)]) (simp_all add: run5_facts)
  then have "reports go_sort 0 child5 solution5"
    using reports.again [OF m(1) d run5_facts(19), of go_sort solution5]
    by (simp add: run5_facts)
  then show ?thesis
    using reports.stuck [OF m(1) d run5_facts(9) _ _ run5_facts(14)] by simp
qed

lemma Solve5:
  "m \<le> 1 \<Longrightarrow> Solve go_sort False game5 10 m ([solution5], None)"
proof -
  assume m: "m \<le> 1"
  have "list_all (reports go_sort 0 (game5\<lparr>solutionChannel := Some 1, deadline := 0 + 10\<rparr>)) [solution5]"
    using reports5 by (simp add: root5_def)
  from Solve_returns [OF this, of False m] m show ?thesis
    by (simp add: waitforCompletion_def solutionExists_def)
qed

text \<open>
The run of \<open>puzzle0\<close>: loading and the one sweep that fills the empty cell.
\<close>

lemma run0:
  "case Load puzzle0 of
     Inl e \<Rightarrow> False
   | Inr g \<Rightarrow>
       (Square_Get (square g) 0 0 = Some 0 \<and> CellsToBeSolved g = 1 \<and>
        take 1 (Steps g) = [\<lparr>X = 0, Y = 0, Z = 0, Initial = True, IsGuess = False\<rparr>]) \<and>
       (case step (g\<lparr>solutionChannel := Some 1, deadline := 10\<rparr>) of
          (n, s) \<Rightarrow>
            n = 1 \<and> countEmptyValues s = 0 \<and> Square_Get (square s) 0 0 = Some 0 \<and>
            grid_rows s =
              [[Some 0, Some 3, Some 4, Some 6, Some 7, Some 8, Some 9, Some 1, Some 2],
               [Some 6, Some 7, Some 2, Some 1, Some 9, Some 5, Some 3, Some 4, Some 8],
               [Some 1, Some 9, Some 8, Some 3, Some 4, Some 2, Some 5, Some 6, Some 7],
               [Some 8, Some 5, Some 9, Some 7, Some 6, Some 1, Some 4, Some 2, Some 3],
               [Some 4, Some 2, Some 6, Some 8, Some 5, Some 3, Some 7, Some 9, Some 1],
               [Some 7, Some 1, Some 3, Some 9, Some 2, Some 4, Some 8, Some 5, Some 6],
               [Some 9, Some 6, Some 1, Some 5, Some 3, Some 7, Some 2, Some 8, Some 4],
               [Some 2, Some 8, Some 7, Some 4, Some 1, Some 9, Some 6, Some 3, Some 5],
               [Some 3, Some 4, Some 5, Some 2, Some 8, Some 6, Some 1, Some 7, Some 9]])"
  by code_simp

lemma run0_facts:
  shows "Load puzzle0 = Inr game0"
    and "Square_Get (square game0) 0 0 = Some 0" and "CellsToBeSolved game0 = 1"
    and "take 1 (Steps game0) = [\<lparr>X = 0, Y = 0, Z = 0, Initial = True, IsGuess = False\<rparr>]"
    and "step root0 = (1, solution0)" and "countEmptyValues solution0 = 0"
    and "Square_Get (square solution0) 0 0 = Some 0"
    and "grid_rows solution0 =
           [[Some 0, Some 3, Some 4, Some 6, Some 7, Some 8, Some 9, Some 1, Some 2],
            [Some 6, Some 7, Some 2, Some 1, Some 9, Some 5, Some 3, Some 4, Some 8],
            [Some 1, Some 9, Some 8, Some 3, Some 4, Some 2, Some 5, Some 6, Some 7],
            [Some 8, Some 5, Some 9, Some 7, Some 6, Some 1, Some 4, Some 2, Some 3],
            [Some 4, Some 2, Some 6, Some 8, Some 5, Some 3, Some 7, Some 9, Some 1],
            [Some 7, Some 1, Some 3, Some 9, Some 2, Some 4, Some 8, Some 5, Some 6],
            [Some 9, Some 6, Some 1, Some 5, Some 3, Some 7, Some 2, Some 8, Some 4],
            [Some 2, Some 8, Some 7, Some 4, Some 1, Some 9, Some 6, Some 3, Some 5],
            [Some 3, Some 4, Some 5, Some 2, Some 8, Some 6, Some 1, Some 7, Some 9]]"
proof -
  from run0 obtain g where L: "Load puzzle0 = Inr g"
    by (cases "Load puzzle0") simp_all
  then have g: "game0 = g" by (simp add: game0_def)
  obtain n s where S1: "step root0 = (n, s)" by (cases "step root0")
  then have s: "solution0 = s" by (simp add: solution0_def)
  from S1 have S1': "step (g\<lparr>solutionChannel := Some 1, deadline := 10\<rparr>) = (n, s)"
    by (simp add: root0_def g)
  note all = run0 [unfolded L sum.case S1' prod.case]
  from all L g show "Load puzzle0 = Inr game0"
    and "Square_Get (square game0) 0 0 = Some 0" and "CellsToBeSolved game0 = 1"
    and "take 1 (Steps game0) = [\<lparr>X = 0, Y = 0, Z = 0, Initial = True, IsGuess = False\<rparr>]"
    by simp_all
  from all S1 s show "step root0 = (1, solution0)" and "countEmptyValues solution0 = 0"
    and "Square_Get (square solution0) 0 0 = Some 0" by simp_all
  from all s show "grid_rows solution0 =
           [[Some 0, Some 3, Some 4, Some 6, Some 7, Some 8, Some 9, Some 1, Some 2],
            [Some 6, Some 7, Some 2, Some 1, Some 9, Some 5, Some 3, Some 4, Some 8],
            [Some 1, Some 9, Some 8, Some 3, Some 4, Some 2, Some 5, Some 6, Some 7],
            [Some 8, Some 5, Some 9, Some 7, Some 6, Some 1, Some 4, Some 2, Some 3],
            [Some 4, Some 2, Some 6, Some 8, Some 5, Some 3, Some 7, Some 9, Some 1],
            [Some 7, Some 1, Some 3, Some 9, Some 2, Some 4, Some 8, Some 5, Some 6],
            [Some 9, Some 6, Some 1, Some 5, Some 3, Some 7, Some 2, Some 8, Some 4],
            [Some 2, Some 8, Some 7, Some 4, Some 1, Some 9, Some 6, Some 3, Some 5],
            [Some 3, Some 4, Some 5, Some 2, Some 8, Some 6, Some 1, Some 7, Some 9]]" by simp
qed

lemma reports0: "reports go_sort 0 root0 solution0"
proof -
  have m: "(0::nat) < maxSteps" by (simp add: maxSteps_def SQUARE_SIZE_def)
  have d: "\<not> deadline root0 < deadline root0" by simp
  show ?thesis
    by (rule reports.solved [OF m d run0_facts(5)]) (simp_all add: run0_facts)
qed

lemma Solve0: "Solve go_sort False game0 10 1 ([solution0], None)"
proof -
  have "list_all (reports go_sort 0 (game0\<lparr>solutionChannel := Some 1, deadline := 0 + 10\<rparr>)) [solution0]"
    using reports0 by (simp add: root0_def)
  from Solve_returns [OF this, of False 1] show ?thesis
    by (simp add: waitforCompletion_def solutionExists_def)
qed

text \<open>
The run of \<open>puzzle9\<close>: loading and the sweep that ends at the cell without candidate.
\<close>

lemma run9:
  "case Load puzzle9 of
     Inl e \<Rightarrow> False
   | Inr g \<Rightarrow>
       (Size (square g) = 9 \<and> countEmptyValues g = 65 \<and> length (Steps g) = 16 \<and>
        Game_findCandidates g 0 8 = [9] \<and> Game_findCandidates g 1 8 = [9]) \<and>
       (case step g of
          (n, d) \<Rightarrow>
            n = - 1 \<and> Square_Get (square d) 0 8 = Some 9 \<and> Square_Get (square d) 1 8 = None \<and>
            Game_findCandidates d 1 8 = [] \<and> countEmptyValues d = 64 \<and>
            length (Steps d) = 17 \<and>
            last (Steps d) = \<lparr>X = 0, Y = 8, Z = 9, Initial = False, IsGuess = False\<rparr>)"
  by code_simp

lemma run9_facts:
  shows "Load puzzle9 = Inr game9"
    and "Size (square game9) = 9" and "countEmptyValues game9 = 65"
    and "length (Steps game9) = 16"
    and "Game_findCandidates game9 0 8 = [9]" and "Game_findCandidates game9 1 8 = [9]"
    and "step game9 = (- 1, dead9)"
    and "Square_Get (square dead9) 0 8 = Some 9" and "Square_Get (square dead9) 1 8 = None"
    and "Game_findCandidates dead9 1 8 = []" and "countEmptyValues dead9 = 64"
    and "length (Steps dead9) = 17"
    and "last (Steps dead9) = \<lparr>X = 0, Y = 8, Z = 9, Initial = False, IsGuess = False\<rparr>"
proof -
  from run9 obtain g where L: "Load puzzle9 = Inr g"
    by (cases "Load puzzle9") simp_all
  then have g: "game9 = g" by (simp add: game9_def)
  obtain n d where S1: "step g = (n, d)" by (cases "step g")
  then have d: "dead9 = d" by (simp add: dead9_def g)
  note all = run9 [unfolded L sum.case S1 prod.case]
  from all L g show "Load puzzle9 = Inr game9"
    and "Size (square game9) = 9" and "countEmptyValues game9 = 65"
    and "length (Steps game9) = 16"
    and "Game_findCandidates game9 0 8 = [9]" and "Game_findCandidates game9 1 8 = [9]"
    by simp_all
  from all S1 g d show "step game9 = (- 1, dead9)" by simp
  from all d show "Square_Get (square dead9) 0 8 = Some 9" and "Square_Get (square dead9) 1 8 = None"
    and "Game_findCandidates dead9 1 8 = []" and "countEmptyValues dead9 = 64"
    and "length (Steps dead9) = 17"
    and "last (Steps dead9) = \<lparr>X = 0, Y = 8, Z = 9, Initial = False, IsGuess = False\<rparr>"
    by simp_all
qed

section \<open>The claims\<close>

text \<open>
C1. The claim: every grid \<open>Solve\<close> returns for a game produced by \<open>Load\<close> has each of
  1..9 exactly once in every row, column and block. \<open>Load\<close> accepts the token \<open>0\<close> (its range
  check is \<open>num < 0 || num > SQUARE_SIZE\<close>, see C9) and stores it as a clue like any other
  value. \<open>puzzle0\<close> loads; one sweep fills its only empty cell, no cell is empty then and
  the game is sent to the channel; \<open>Solve\<close> returns it. Its first row starts with 0 and
  holds no 5.
\<close>

theorem Solve_returns_grid_with_zero:
  "Load puzzle0 = Inr game0 \<and>
   reports go_sort 0 (game0\<lparr>solutionChannel := Some 1, deadline := 10\<rparr>) solution0 \<and>
   Solve go_sort False game0 10 1 ([solution0], None) \<and>
   countEmptyValues solution0 = 0 \<and>
   map (\<lambda>y. Square_Get (square solution0) 0 y) [0..<9] =
     [Some 0, Some 3, Some 4, Some 6, Some 7, Some 8, Some 9, Some 1, Some 2] \<and>
   \<not> (\<exists>y < 9. Square_Get (square solution0) 0 y = Some 5)"
proof -
  have r: "map (\<lambda>y. Square_Get (square solution0) 0 y) [0..<9] =
      [Some 0, Some 3, Some 4, Some 6, Some 7, Some 8, Some 9, Some 1, Some 2]"
    using run0_facts(8) [unfolded grid_rows_def] by (simp add: upt_rec)
  have "\<not> (\<exists>y < 9. Square_Get (square solution0) 0 y = Some 5)"
  proof
    assume "\<exists>y < 9. Square_Get (square solution0) 0 y = Some 5"
    then obtain y where "y < 9" "Square_Get (square solution0) 0 y = Some 5" by blast
    then have "Some 5 \<in> set (map (\<lambda>y. Square_Get (square solution0) 0 y) [0..<9])" by force
    with r show False by simp
  qed
  with r reports0 Solve0 run0_facts show ?thesis by (simp add: root0_def)
qed

text \<open>
  C2. A cell that holds a value keeps it: through a sweep, in every child of a branching
  point, in every game a search task reports from there on and in every solution
  \<open>Solve\<close> returns for the game. Both \<open>step\<close> and \<open>findCellsWithLeastCandidates\<close> write
  or choose a cell only under \<open>!g.square.Has(x, y)\<close>. The sorting routine is any routine
  that keeps the promise of \<open>sort.Sort\<close>; the statement holds for every game, so for
  every game \<open>Load\<close> produces.
\<close>

theorem clues_never_altered:
  assumes "sort_contract srt" "Square_Has (square g) x y"
  shows "Square_Get (square (snd (step g))) x y = Square_Get (square g) x y \<and>
         (\<forall>c \<in> set (guessAndContinue srt g). Square_Get (square c) x y = Square_Get (square g) x y) \<and>
         (\<forall>i s. reports srt i g s \<longrightarrow> Square_Get (square s) x y = Square_Get (square g) x y) \<and>
         (\<forall>Verbose timeout minSolutionCount sols err s.
            Solve srt Verbose g timeout minSolutionCount (sols, err) \<longrightarrow> s \<in> set sols \<longrightarrow>
            Square_Get (square s) x y = Square_Get (square g) x y)"
proof -
  let ?P = "\<lambda>sq. cells sq (x, y) = cells (square g) (x, y)"
  from assms(2) have ne: "cells (square g) (x, y) \<noteq> None" by (simp add: Square_Has_def)
  have pc: "placement_closed ?P" using ne by (rule keeps_placement_closed)
  have 1: "Square_Get (square (snd (step g))) x y = Square_Get (square g) x y"
    using step_invariant(1) [OF pc, of g] by (simp add: Square_Get_def)
  have 2: "Square_Get (square c) x y = Square_Get (square g) x y"
    if "c \<in> set (guessAndContinue srt g)" for c
  proof -
    from guessAndContinue_children [OF assms(1) that] obtain x' y' v where
      "x' < Size (square g)" "y' < Size (square g)" "cells (square g) (x', y') = None"
      "v \<in> candidate_set (square g) x' y'" "c = set_cell (copy g) x' y' v False True" by blast
    with placement_closedD [OF pc, of "square g" x' y' v] show ?thesis
      by (simp add: square_child Square_Get_def)
  qed
  have 3: "Square_Get (square s) x y = Square_Get (square g) x y" if "reports srt i g s" for i s
    using reports_invariant [OF that assms(1) pc] by (simp add: Square_Get_def)
  have 4: "Square_Get (square s) x y = Square_Get (square g) x y"
    if "Solve srt Verbose g timeout m (sols, err)" "s \<in> set sols" for Verbose timeout m sols err s
    using Solve_invariant [OF that assms(1) pc] by (simp add: Square_Get_def)
  from 1 2 3 4 show ?thesis by blast
qed

text \<open>
For C2 on \<open>puzzle5\<close>: the clue 5 of the first cell is still there in the solution
  \<open>Solve\<close> returns.
\<close>

theorem clues_never_altered_witness:
  "sort_contract go_sort \<and> Square_Has (square game5) 0 0 \<and>
   Solve go_sort False game5 10 1 ([solution5], None) \<and>
   Square_Get (square game5) 0 0 = Some 5 \<and>
   Square_Get (square solution5) 0 0 = Square_Get (square game5) 0 0"
proof -
  have s: "Solve go_sort False game5 10 1 ([solution5], None)" by (rule Solve5) simp
  from clues_never_altered [OF go_sort_contract run5_facts(7)]
  have "Solve go_sort False game5 10 1 (sols, err) \<Longrightarrow> r \<in> set sols \<Longrightarrow>
      Square_Get (square r) 0 0 = Square_Get (square game5) 0 0" for sols err r
    by blast
  from this [OF s]
  have "Square_Get (square solution5) 0 0 = Square_Get (square game5) 0 0" by simp
  with go_sort_contract run5_facts s show ?thesis by simp
qed

text \<open>
  C3. The claim: whenever the collection loop ends with zero accepted solutions, \<open>Solve\<close>
  returns a non-nil error, whatever the verbosity flag. The code builds the error
  "No solutions found" only under \<open>if Verbose\<close>: with the flag off (its default) and
  nothing arriving before the timer fires, \<open>waitforCompletion\<close>, and so \<open>Solve\<close>, returns
  the empty list together with a nil error; with the flag off the error is nil on every
  input.
\<close>

theorem waitforCompletion_silent_without_Verbose:
  "waitforCompletion False [] minSolutionCount = ([], None) \<and>
   Solve srt False g timeout minSolutionCount ([], None) \<and>
   snd (waitforCompletion False arrivals minSolutionCount) = None"
proof -
  have e: "waitforCompletion False [] minSolutionCount = ([], None)"
    by (simp add: waitforCompletion_def)
  have "Solve srt False g timeout minSolutionCount (waitforCompletion False [] minSolutionCount)"
    by (rule Solve_returns [where arrivals = "[]" and ch = 0 and now = 0]) simp
  with e have s: "Solve srt False g timeout minSolutionCount ([], None)" by simp
  have "snd (waitforCompletion False arrivals minSolutionCount) = None"
    by (simp add: waitforCompletion_def Let_def)
  with e s show ?thesis by simp
qed

text \<open>
  C4. On a game whose grid has size 9, \<open>step\<close> is the sweep of the specification over the
  81 coordinates in row-major order, started with a count of 0: the result is the count
  of cells fixed, or \<open>-1\<close> at the first empty cell without candidate, with nothing placed
  after it. The candidates \<open>findCandidates\<close> returns for a cell are exactly the values of
  1..9 used neither in its row, nor in its column, nor in its block.
\<close>

theorem step_refines_sweep:
  assumes "Size (square g) = 9"
  shows "step g = sweep [(x, y). x \<leftarrow> [0..<9], y \<leftarrow> [0..<9]] 0 g \<and>
         length [(x, y). x \<leftarrow> [0..<9], y \<leftarrow> [0..<9::nat]] = 81 \<and>
         (\<forall>x y. set (Game_findCandidates g x y) = candidate_set (square g) x y)"
proof -
  have "step g = sweep (concat (map (\<lambda>x. map (Pair x) [0..<9]) [0..<9])) 0 g"
    using step_rows_sweep [OF assms, of 0 0] by (simp add: step_def split: sum.splits)
  moreover have "length [(x, y). x \<leftarrow> [0..<9], y \<leftarrow> [0..<9::nat]] = 81"
    by (simp add: length_concat comp_def sum_list_triv)
  ultimately show ?thesis by (simp add: Game_findCandidates_set)
qed

text \<open>
For C4, on two games of size 9. On \<open>child5\<close> the sweep leaves (4,1), which has the
  three candidates 1, 2 and 6, alone, places the single candidate 6 in (4,2) and fixes
  five of the six empty cells. On \<open>game9\<close> it places the single candidate 9 in (0,8),
  finds no candidate for (1,8) and returns \<open>-1\<close> at once: the placement is recorded as
  "not initial, not guess", (1,8) and the 63 cells after it are still empty.
\<close>

theorem step_refines_sweep_witness:
  "Size (square child5) = 9 \<and>
   step child5 = sweep [(x, y). x \<leftarrow> [0..<9], y \<leftarrow> [0..<9]] 0 child5 \<and>
   sweep [(x, y). x \<leftarrow> [0..<9], y \<leftarrow> [0..<9]] 0 child5 = (5, swept5) \<and>
   countEmptyValues child5 = 6 \<and> countEmptyValues swept5 = 1 \<and>
   candidate_set (square child5) 4 1 = {1, 2, 6} \<and> candidate_set (square child5) 4 2 = {6} \<and>
   Size (square game9) = 9 \<and>
   step game9 = sweep [(x, y). x \<leftarrow> [0..<9], y \<leftarrow> [0..<9]] 0 game9 \<and>
   sweep [(x, y). x \<leftarrow> [0..<9], y \<leftarrow> [0..<9]] 0 game9 = (- 1, dead9) \<and>
   candidate_set (square game9) 0 8 = {9} \<and> candidate_set (square game9) 1 8 = {9} \<and>
   Square_Get (square dead9) 0 8 = Some 9 \<and> Square_Get (square dead9) 1 8 = None \<and>
   candidate_set (square dead9) 1 8 = {} \<and>
   countEmptyValues game9 = 65 \<and> countEmptyValues dead9 = 64 \<and>
   last (Steps dead9) = \<lparr>X = 0, Y = 8, Z = 9, Initial = False, IsGuess = False\<rparr>"
proof -
  note c = step_refines_sweep [OF run5_facts(27)]
  note g = step_refines_sweep [OF run9_facts(2)]
  from c run5_facts(19)
  have 1: "step child5 = sweep [(x, y). x \<leftarrow> [0..<9], y \<leftarrow> [0..<9]] 0 child5"
    "sweep [(x, y). x \<leftarrow> [0..<9], y \<leftarrow> [0..<9]] 0 child5 = (5, swept5)"
    by simp_all
  from c have cs: "set (Game_findCandidates child5 x y) = candidate_set (square child5) x y" for x y
    by blast
  have "candidate_set (square child5) 4 1 = set [1, 2, 6]"
    "candidate_set (square child5) 4 2 = set [6]"
    unfolding cs [symmetric] run5_facts(28,29) by (rule refl)+
  then have 2: "candidate_set (square child5) 4 1 = {1, 2, 6}"
    "candidate_set (square child5) 4 2 = {6}"
    by simp_all
  from g run9_facts(7)
  have 3: "step game9 = sweep [(x, y). x \<leftarrow> [0..<9], y \<leftarrow> [0..<9]] 0 game9"
    "sweep [(x, y). x \<leftarrow> [0..<9], y \<leftarrow> [0..<9]] 0 game9 = (- 1, dead9)"
    by simp_all
  from g have gs: "set (Game_findCandidates game9 x y) = candidate_set (square game9) x y" for x y
    by blast
  have "candidate_set (square game9) 0 8 = set [9]" "candidate_set (square game9) 1 8 = set [9]"
    unfolding gs [symmetric] run9_facts(5,6) by (rule refl)+
  then have 4: "candidate_set (square game9) 0 8 = {9}" "candidate_set (square game9) 1 8 = {9}"
    by simp_all
  have "candidate_set (square dead9) 1 8 = set []"
    unfolding Game_findCandidates_set [symmetric] run9_facts(10) by (rule refl)
  then have 5: "candidate_set (square dead9) 1 8 = {}" by simp
  from 1 2 3 4 5 run5_facts(18,20,27) run9_facts(2,3,8,9,11,13) show ?thesis by simp
qed

text \<open>
  C6, as amended. The list \<open>waitforCompletion\<close> returns is the list of first occurrences
  (by grid content) of the arrivals, in arrival order, cut after \<open>max 1 minSolutionCount\<close>
  entries: the loop leaves as soon as that many are accepted. Its entries are pairwise
  distinct in content and there are at most \<open>max 1 minSolutionCount\<close> of them. The bound
  is not \<open>minSolutionCount\<close> itself: the count is compared only after a grid has been
  appended, so a call that asks for zero (or fewer) solutions still returns the first one.
\<close>

theorem waitforCompletion_distinct_bounded:
  "fst (waitforCompletion Verbose arrivals minSolutionCount) =
     take (nat (max 1 minSolutionCount)) (accept_all arrivals []) \<and>
   distinct (map square (fst (waitforCompletion Verbose arrivals minSolutionCount))) \<and>
   int (length (fst (waitforCompletion Verbose arrivals minSolutionCount))) \<le> max 1 minSolutionCount"
proof -
  have o: "outerLoop arrivals [] minSolutionCount =
      take (nat (max 1 minSolutionCount)) (accept_all arrivals [])"
    by (rule outerLoop_take) simp
  have f: "fst (waitforCompletion Verbose arrivals minSolutionCount) =
      outerLoop arrivals [] minSolutionCount"
    by (simp add: waitforCompletion_def Let_def)
  have "distinct (map square (accept_all arrivals []))"
    by (rule accept_all_distinct) simp
  then have d: "distinct (map square (take (nat (max 1 minSolutionCount)) (accept_all arrivals [])))"
    by (simp add: take_map [symmetric])
  have l: "int (length (take (nat (max 1 minSolutionCount)) (accept_all arrivals []))) \<le> max 1 minSolutionCount"
    by simp
  from o f d l show ?thesis by simp
qed

text \<open>
The claim C6 as stated, with the bound \<open>minSolutionCount\<close>, fails when zero solutions
  are asked for: on \<open>puzzle5\<close>, \<open>Solve\<close> with \<open>minSolutionCount = 0\<close> returns one grid.
\<close>

theorem Solve_zero_wanted_counterexample:
  "Load puzzle5 = Inr game5 \<and> Solve go_sort False game5 10 0 ([solution5], None) \<and>
   \<not> int (length [solution5]) \<le> 0"
proof -
  have "Solve go_sort False game5 10 0 ([solution5], None)" by (rule Solve5) simp
  with run5_facts(1) show ?thesis by simp
qed

text \<open>
C7. The claim: the provenance of a child equals the parent's record for record, flags
  included, followed by one record for the guess. \<open>copy\<close> builds each record of the child
  as \<open>Step{X: s.X, Y: s.Y, Z: s.Z}\<close>, so both flags of every copied record are false. On
  \<open>puzzle5\<close>: the stuck parent has 74 records, all marked initial; branching makes two
  children; each child has 75 records, none marked initial; the first 74 agree with the
  parent's in row, column and value; the last is the guess, marked "not initial, is
  guess"; deadline and channel are the parent's.
\<close>

theorem copy_drops_flags:
  "Load puzzle5 = Inr game5 \<and> step (game5\<lparr>solutionChannel := Some 1, deadline := 10\<rparr>) = (0, stuck5) \<and>
   length (Steps stuck5) = 74 \<and> list_all Initial (Steps stuck5) \<and>
   length (guessAndContinue go_sort stuck5) = 2 \<and>
   list_all (\<lambda>d. length (Steps d) = 75 \<and> \<not> list_ex Initial (Steps d) \<and>
                 map xyz (butlast (Steps d)) = map xyz (Steps stuck5) \<and>
                 IsGuess (last (Steps d)) \<and> \<not> Initial (last (Steps d)) \<and>
                 deadline d = deadline stuck5 \<and> solutionChannel d = solutionChannel stuck5)
     (guessAndContinue go_sort stuck5)"
  using run5_facts(1,9,12,13,15,16) by (simp add: root5_def)




text \<open>
C9. The claim: a token that parses as an integer outside 1..9, the token \<open>0\<close> in
  particular, makes \<open>Load\<close> return an error. The range check of \<open>Load\<close> is
  \<open>num < 0 || num > SQUARE_SIZE\<close>, which lets 0 pass, while the values of the solver are
  1..9 (\<open>makeFull\<close>). \<open>puzzle0\<close>, whose first token is \<open>0\<close>, loads: the first cell of the
  game holds 0, recorded as an initial step.
\<close>

theorem Load_accepts_zero:
  "Atoi ''0'' = Some 0 \<and> Load puzzle0 = Inr game0 \<and>
   Square_Get (square game0) 0 0 = Some 0 \<and>
   take 1 (Steps game0) = [\<lparr>X = 0, Y = 0, Z = 0, Initial = True, IsGuess = False\<rparr>]"
proof -
  have "Atoi ''0'' = Some 0" by (simp add: Atoi_def digit_of_def in_int_range_def)
  with run0_facts show ?thesis by simp
qed

text \<open>
C10. \<open>Load\<close> depends only on the lines before the first empty line, nine at most: it
  returns the error of the first bad row among them, if there is one; otherwise the error
  "Not enough rows", with their number, if they are fewer than nine; otherwise the game.
  So lines after the ninth are ignored (appending a line break and any text to an input
  that loads changes nothing), and "Not enough rows" is returned exactly when fewer than
  nine rows were read, all without error, before the input or an empty line ended the
  scan.
\<close>

theorem Load_reads_nine_rows:
  "Load s =
     (case load_lines 0 (rows_read s) 0 newGame of
        Inl e \<Rightarrow> Inl e
      | Inr (k, game) \<Rightarrow>
          if length (rows_read s) < 9 then Inl (NotEnoughRows 9 (length (rows_read s)))
          else Inr (game\<lparr>CellsToBeSolved := countEmptyValues game\<rparr>)) \<and>
   (Load s = Inr g \<longrightarrow> Load (s @ CHR 0x0A # extra) = Inr g) \<and>
   (Load s = Inl (NotEnoughRows 9 k) \<longleftrightarrow>
      k = length (rows_read s) \<and> k < 9 \<and>
      (\<exists>game. load_lines 0 (rows_read s) 0 newGame = Inr (k, game)))"
proof -
  note L = Load_rows_read [of s, unfolded SQUARE_SIZE_def]
  have 2: "Load (s @ CHR 0x0A # extra) = Inr g" if "Load s = Inr g"
  proof -
    from that have "length (rows_read s) = SQUARE_SIZE"
      using rows_read_props(2) [of s]
      by (auto simp: Load_rows_read split: sum.splits prod.splits if_splits)
    from rows_read_append [OF this, of extra]
    have "Load (s @ CHR 0x0A # extra) = Load s"
      by (simp only: Load_rows_read [of "s @ CHR 0x0A # extra"] Load_rows_read [of s])
    with that show ?thesis by simp
  qed
  have 3: "Load s = Inl (NotEnoughRows 9 k) \<longleftrightarrow>
      k = length (rows_read s) \<and> k < 9 \<and>
      (\<exists>game. load_lines 0 (rows_read s) 0 newGame = Inr (k, game))"
  proof (cases "load_lines 0 (rows_read s) 0 newGame")
    case (Inl e)
    from load_lines_error [OF Inl] have "e \<noteq> NotEnoughRows 9 k" .
    with Inl show ?thesis by (simp add: L)
  next
    case (Inr r)
    obtain k' game where r: "r = (k', game)" by (cases r)
    from load_lines_count [OF rows_read_props(1) _ Inr [unfolded r]] rows_read_props(2) [of s]
    have "k' = length (rows_read s)" by simp
    with Inr r show ?thesis by (auto simp: L)
  qed
  from L 2 3 show ?thesis by blast
qed

text \<open>
For C10: \<open>puzzle5\<close> with a tenth line, and the empty input.
\<close>

theorem Load_reads_nine_rows_witness:
  "Load puzzle5 = Inr game5 \<and>
   Load (puzzle5 @ CHR 0x0A # ''one more line'') = Inr game5 \<and>
   rows_read [] = [] \<and> Load [] = Inl (NotEnoughRows 9 0)"
proof -
  from Load_reads_nine_rows [of puzzle5 game5 "''one more line''"] run5_facts(1)
  have a: "Load (puzzle5 @ CHR 0x0A # ''one more line'') = Inr game5" by blast
  have r: "rows_read [] = []" by (simp add: rows_read_def SQUARE_SIZE_def)
  from Load_reads_nine_rows [of "[]" game5 "[]" 0]
  have "Load [] = Inl (NotEnoughRows 9 0) \<longleftrightarrow>
      0 = length (rows_read []) \<and> (0::nat) < 9 \<and>
      (\<exists>game. load_lines 0 (rows_read []) 0 newGame = Inr (0, game))" by blast
  with r have "Load [] = Inl (NotEnoughRows 9 0)" by simp
  with a r run5_facts(1) show ?thesis by simp
qed

end
